theory Spec2Isabelle
  imports Complex_Main
begin

unbundle bit_operations_syntax

section \<open>JavaScript values used by the generator\<close>

text \<open>
  The identifier generator of \<^verbatim>\<open>src/snowflake.js\<close> computes with BigInt values, which
  are unbounded integers with two's-complement bit operations: they are modelled by
  \<^typ>\<open>int\<close>. A Number is a double; the code only ever asks whether a Number is an
  integer and converts it to a BigInt, so a finite Number is modelled by the rational it
  denotes. A Date holds a time value in milliseconds or is invalid (\<open>None\<close>).
\<close>

datatype js_number = Num rat | NaN | PosInfinity | NegInfinity

datatype js_value =
    JNumber js_number
  | JDate "int option"
  | JOther

text \<open>Every \<^verbatim>\<open>throw\<close> of the two source files and every exception of a builtin they call.\<close>

datatype error =
    BigIntRangeError
  | BigIntSyntaxError
  | ExponentRangeError
  | TimestampTypeError
  | TimestampBeforeEpoch
  | InvalidNumericString
  | FirstTimestampTypeError
  | FirstTimestampOutOfRange
  | BitsSumError
  | BitsNotPositive
  | MachineIdOutOfRange

subsection \<open>BigInt(number)\<close>

text \<open>\<^verbatim>\<open>BigInt(n)\<close> for a Number throws a RangeError unless \<open>n\<close> is an integer.\<close>

fun BigInt_of_number :: "js_number \<Rightarrow> error + int" where
  "BigInt_of_number (Num r) = (if of_int \<lfloor>r\<rfloor> = r then Inr \<lfloor>r\<rfloor> else Inl BigIntRangeError)"
| "BigInt_of_number NaN = Inl BigIntRangeError"
| "BigInt_of_number PosInfinity = Inl BigIntRangeError"
| "BigInt_of_number NegInfinity = Inl BigIntRangeError"

subsection \<open>BigInt(string) and BigInt.prototype.toString\<close>

text \<open>
  A string is a list of code units; \<^typ>\<open>char\<close> covers the code units below 256.
  \<^verbatim>\<open>BigInt(s)\<close> trims white space and accepts the empty string (as 0), decimal digits
  with an optional sign, and unsigned binary, octal and hexadecimal literals; anything
  else is a SyntaxError.
\<close>

definition is_ws :: "char \<Rightarrow> bool" where
  "is_ws c = (of_char c \<in> {9, 10, 11, 12, 13, 32, 160 :: nat})"

definition trim :: "string \<Rightarrow> string" where
  "trim s = rev (dropWhile is_ws (rev (dropWhile is_ws s)))"

definition is_dec_digit :: "char \<Rightarrow> bool" where
  "is_dec_digit c = (48 \<le> (of_char c :: nat) \<and> (of_char c :: nat) \<le> 57)"

definition is_bin_digit :: "char \<Rightarrow> bool" where
  "is_bin_digit c = (c = CHR ''0'' \<or> c = CHR ''1'')"

definition is_oct_digit :: "char \<Rightarrow> bool" where
  "is_oct_digit c = (48 \<le> (of_char c :: nat) \<and> (of_char c :: nat) \<le> 55)"

definition is_hex_digit :: "char \<Rightarrow> bool" where
  "is_hex_digit c =
     (is_dec_digit c
      \<or> (97 \<le> (of_char c :: nat) \<and> (of_char c :: nat) \<le> 102)
      \<or> (65 \<le> (of_char c :: nat) \<and> (of_char c :: nat) \<le> 70))"

definition digit_val :: "char \<Rightarrow> nat" where
  "digit_val c =
     (let k = of_char c in
      if 97 \<le> k then k - 87 else if 65 \<le> k then k - 55 else k - 48)"

definition radix_value :: "nat \<Rightarrow> string \<Rightarrow> nat" where
  "radix_value r ds = foldl (\<lambda>a c. r * a + digit_val c) 0 ds"

definition digits_of :: "(char \<Rightarrow> bool) \<Rightarrow> nat \<Rightarrow> string \<Rightarrow> error + int" where
  "digits_of ok r ds =
     (if ds \<noteq> [] \<and> list_all ok ds then Inr (int (radix_value r ds)) else Inl BigIntSyntaxError)"

fun negate :: "error + int \<Rightarrow> error + int" where
  "negate (Inl e) = Inl e"
| "negate (Inr v) = Inr (- v)"

fun StrIntegerLiteral :: "string \<Rightarrow> error + int" where
  "StrIntegerLiteral (c # d # ds) =
     (if c = CHR ''0'' \<and> (d = CHR ''b'' \<or> d = CHR ''B'') then digits_of is_bin_digit 2 ds
      else if c = CHR ''0'' \<and> (d = CHR ''o'' \<or> d = CHR ''O'') then digits_of is_oct_digit 8 ds
      else if c = CHR ''0'' \<and> (d = CHR ''x'' \<or> d = CHR ''X'') then digits_of is_hex_digit 16 ds
      else if c = CHR ''+'' then digits_of is_dec_digit 10 (d # ds)
      else if c = CHR ''-'' then negate (digits_of is_dec_digit 10 (d # ds))
      else digits_of is_dec_digit 10 (c # d # ds))"
| "StrIntegerLiteral [c] = digits_of is_dec_digit 10 [c]"
| "StrIntegerLiteral [] = digits_of is_dec_digit 10 []"

definition BigInt_of_string :: "string \<Rightarrow> error + int" where
  "BigInt_of_string s = (let t = trim s in if t = [] then Inr 0 else StrIntegerLiteral t)"

definition digit_char :: "nat \<Rightarrow> char" where
  "digit_char d = ''0123456789'' ! d"

fun dec_digits :: "nat \<Rightarrow> string" where
  "dec_digits n = (if n < 10 then [digit_char n] else dec_digits (n div 10) @ [digit_char (n mod 10)])"

declare dec_digits.simps [simp del]

definition BigInt_toString :: "int \<Rightarrow> string" where
  "BigInt_toString i = (if i < 0 then CHR ''-'' # dec_digits (nat (- i)) else dec_digits (nat i))"

section \<open>The generator of \<^verbatim>\<open>src/snowflake.js\<close>\<close>

subsection \<open>BigInt operators\<close>

text \<open>
  \<^verbatim>\<open>x << n\<close> and \<^verbatim>\<open>x >> n\<close> on BigInt: a negative count shifts the other way.
  \<^verbatim>\<open>x ** n\<close> throws a RangeError for a negative exponent.
\<close>

definition shl :: "int \<Rightarrow> int \<Rightarrow> int" where
  "shl x n = (if 0 \<le> n then push_bit (nat n) x else drop_bit (nat (- n)) x)"

definition shr :: "int \<Rightarrow> int \<Rightarrow> int" where
  "shr x n = (if 0 \<le> n then drop_bit (nat n) x else push_bit (nat (- n)) x)"

definition bigint_pow :: "int \<Rightarrow> int \<Rightarrow> error + int" where
  "bigint_pow x n = (if n < 0 then Inl ExponentRangeError else Inr (x ^ nat n))"

subsection \<open>Number(bigint) and new Date(number)\<close>

text \<open>
  \<^verbatim>\<open>Number(x)\<close> is exact for \<open>\<bar>x\<bar> \<le> 2^53\<close>; a larger BigInt is rounded to a double
  of at least that magnitude, which is not modelled further (\<open>None\<close>).
  \<^verbatim>\<open>new Date(v)\<close> keeps a time value of magnitude at most 8.64e15 (which is below \<open>2^53\<close>)
  and is an invalid Date otherwise.
\<close>

definition Number_of_BigInt :: "int \<Rightarrow> int option" where
  "Number_of_BigInt x = (if \<bar>x\<bar> \<le> 2 ^ 53 then Some x else None)"

definition TimeClip :: "int \<Rightarrow> int option" where
  "TimeClip t = (if \<bar>t\<bar> \<le> 8640000000000000 then Some t else None)"

fun Date_of_Number :: "int option \<Rightarrow> int option" where
  "Date_of_Number None = None"
| "Date_of_Number (Some v) = TimeClip v"

subsection \<open>State\<close>

text \<open>
  \<^verbatim>\<open>this.lastTimestamp\<close> is a Date after construction and a BigInt after the first
  \<^verbatim>\<open>nextId\<close>. The relational operators compare the two numerically; \<^verbatim>\<open>===\<close> between a
  Date and a BigInt is false.
\<close>

datatype last_ts = DateObj int | BigIntVal int

fun ts_num :: "last_ts \<Rightarrow> int" where
  "ts_num (DateObj t) = t"
| "ts_num (BigIntVal t) = t"

record generator =
  timestampBits :: int
  machineIdBits :: int
  sequenceBits :: int
  maxTimestamp :: int
  maxMachineId :: int
  maxSequence :: int
  machineId :: int
  sequence :: int
  lastTimestamp :: last_ts
  firstTimestamp :: int
  EPOCH :: int

subsection \<open>generateMachineId\<close>

text \<open>
  \<^verbatim>\<open>os.networkInterfaces()\<close> is a parameter: the list of interfaces, each a list of
  addresses. \<open>mac\<close> is the number that \<^verbatim>\<open>parseInt(mac.split(':').join(''), 16)\<close> reads from
  the address's hardware address. The inner \<^verbatim>\<open>break\<close> leaves the outer loop running, so
  a later interface with a matching address overrides an earlier one.
\<close>

record net_address =
  family :: string
  internal :: bool
  mac :: nat

definition select_mac :: "net_address list list \<Rightarrow> nat option" where
  "select_mac interfaces =
     foldl (\<lambda>macAddress values.
              case find (\<lambda>item. family item = ''IPv4'' \<and> \<not> internal item) values of
                None \<Rightarrow> macAddress
              | Some item \<Rightarrow> Some (mac item))
           None interfaces"

definition generateMachineId :: "net_address list list \<Rightarrow> int \<Rightarrow> int" where
  "generateMachineId interfaces maxMachineId' =
     (let machineId' = (case select_mac interfaces of None \<Rightarrow> 0 | Some m \<Rightarrow> int m)
      in machineId' AND maxMachineId')"

subsection \<open>constructor\<close>

text \<open>
  The arguments are the two bit widths (integers), the machine id (\<open>None\<close> for
  \<^verbatim>\<open>null\<close> or \<^verbatim>\<open>undefined\<close>) and the first timestamp. Both callers pass a Date
  object for the latter, which is truthy; \<open>None\<close> is an invalid Date, whose time value
  \<^verbatim>\<open>NaN\<close> makes \<^verbatim>\<open>BigInt\<close> throw.
\<close>

definition SnowflakeIdGenerator_new ::
    "net_address list list \<Rightarrow> int \<Rightarrow> int \<Rightarrow> int option \<Rightarrow> int option \<Rightarrow> error + generator" where
  "SnowflakeIdGenerator_new interfaces machineIdBits' sequenceBits' machineId' firstTimestamp' =
     (case bigint_pow 2 machineIdBits' of
        Inl e \<Rightarrow> Inl e
      | Inr pm \<Rightarrow>
          (case bigint_pow 2 sequenceBits' of
             Inl e \<Rightarrow> Inl e
           | Inr ps \<Rightarrow>
               (case firstTimestamp' of
                  None \<Rightarrow> Inl BigIntRangeError
                | Some ft \<Rightarrow>
                    Inr \<lparr> timestampBits = 41,
                          machineIdBits = machineIdBits',
                          sequenceBits = sequenceBits',
                          maxTimestamp = 2 ^ 41 - 1,
                          maxMachineId = pm - 1,
                          maxSequence = ps - 1,
                          machineId = (case machineId' of
                                         None \<Rightarrow> generateMachineId interfaces (pm - 1)
                                       | Some m \<Rightarrow> m),
                          sequence = 0,
                          lastTimestamp = DateObj ft,
                          firstTimestamp = ft,
                          EPOCH = ft \<rparr>)))"

subsection \<open>nextId and waitNextMillis\<close>

text \<open>
  \<^verbatim>\<open>Date.now()\<close> is the only input of \<^verbatim>\<open>nextId\<close>: the clock is the list of the
  readings that successive calls of \<^verbatim>\<open>Date.now()\<close> return. Both loops have the shape
  \<^verbatim>\<open>let timestamp = BigInt(Date.now()); while (again(timestamp)) timestamp = BigInt(Date.now())\<close>
  and can spin for ever; \<open>None\<close> says that the loop is still spinning when the readings
  are used up.
\<close>

fun spin :: "(int \<Rightarrow> bool) \<Rightarrow> int list \<Rightarrow> (int \<times> int list) option" where
  "spin again [] = None"
| "spin again (t # clock) = (if again t then spin again clock else Some (t, clock))"

definition waitNextMillis :: "generator \<Rightarrow> int list \<Rightarrow> (int \<times> int list) option" where
  "waitNextMillis g clock = spin (\<lambda>timestamp. timestamp \<le> ts_num (lastTimestamp g)) clock"

definition compose :: "generator \<Rightarrow> int \<Rightarrow> int \<Rightarrow> int \<Rightarrow> int" where
  "compose g timestamp mid seq =
     (shl (timestamp - EPOCH g) (machineIdBits g + sequenceBits g) OR shl mid (sequenceBits g)) OR seq"

definition nextId :: "generator \<Rightarrow> int list \<Rightarrow> (string \<times> generator \<times> int list) option" where
  "nextId g clock =
     (case spin (\<lambda>timestamp. timestamp < ts_num (lastTimestamp g)) clock of
        None \<Rightarrow> None
      | Some (timestamp, clock1) \<Rightarrow>
          (case (if lastTimestamp g = BigIntVal timestamp then
                   (let g1 = g\<lparr>sequence := (sequence g + 1) AND maxSequence g\<rparr> in
                    if sequence g1 = 0 then
                      (case waitNextMillis g1 clock1 of
                         None \<Rightarrow> None
                       | Some (timestamp', clock2) \<Rightarrow> Some (g1, timestamp', clock2))
                    else Some (g1, timestamp, clock1))
                 else Some (g\<lparr>sequence := 0\<rparr>, timestamp, clock1)) of
             None \<Rightarrow> None
           | Some (g2, timestamp', clock') \<Rightarrow>
               (let g3 = g2\<lparr>lastTimestamp := BigIntVal timestamp'\<rparr>;
                    uniqueId = compose g3 timestamp' (machineId g3) (sequence g3)
                in Some (BigInt_toString uniqueId, g3, clock'))))"

text \<open>\<open>n\<close> successive calls on one instance; the ids are listed in the order of the calls.\<close>

fun nextIds :: "nat \<Rightarrow> generator \<Rightarrow> int list \<Rightarrow> (string list \<times> generator \<times> int list) option" where
  "nextIds 0 g clock = Some ([], g, clock)"
| "nextIds (Suc n) g clock =
     (case nextId g clock of
        None \<Rightarrow> None
      | Some (uid, g', clock') \<Rightarrow>
          (case nextIds n g' clock' of
             None \<Rightarrow> None
           | Some (uids, g'', clock'') \<Rightarrow> Some (uid # uids, g'', clock'')))"

subsection \<open>getFirstIdAtTimestamp and getLastIdAtTimestamp\<close>

text \<open>
  Each method returns its result, or the error it throws, together with the generator
  after the call. The first block of both methods converts the argument: a Number by
  \<^verbatim>\<open>BigInt\<close>, a Date by \<^verbatim>\<open>BigInt(timestamp.getTime())\<close>, where the time value of an
  invalid Date is \<^verbatim>\<open>NaN\<close>.
\<close>

fun timestamp_to_BigInt :: "js_value \<Rightarrow> error + int" where
  "timestamp_to_BigInt (JNumber n) = BigInt_of_number n"
| "timestamp_to_BigInt (JDate None) = Inl BigIntRangeError"
| "timestamp_to_BigInt (JDate (Some t)) = Inr t"
| "timestamp_to_BigInt JOther = Inl TimestampTypeError"

definition getFirstIdAtTimestamp :: "generator \<Rightarrow> js_value \<Rightarrow> (error + string) \<times> generator" where
  "getFirstIdAtTimestamp g timestamp =
     (case timestamp_to_BigInt timestamp of
        Inl e \<Rightarrow> (Inl e, g)
      | Inr t \<Rightarrow>
          if t < EPOCH g then (Inl TimestampBeforeEpoch, g)
          else (Inr (BigInt_toString (compose g t 0 0)), g))"

definition getLastIdAtTimestamp :: "generator \<Rightarrow> js_value \<Rightarrow> (error + string) \<times> generator" where
  "getLastIdAtTimestamp g timestamp =
     (case timestamp_to_BigInt timestamp of
        Inl e \<Rightarrow> (Inl e, g)
      | Inr t \<Rightarrow>
          if t < EPOCH g then (Inl TimestampBeforeEpoch, g)
          else (Inr (BigInt_toString (compose g t (maxMachineId g) (maxSequence g))), g))"

subsection \<open>parseId\<close>

record parsed_id =
  parsed_timestamp :: "int option"
  parsed_machineId :: "int option"
  parsed_sequence :: "int option"

definition parseId :: "generator \<Rightarrow> string \<Rightarrow> (error + parsed_id) \<times> generator" where
  "parseId g uid =
     (case BigInt_of_string uid of
        Inl e \<Rightarrow> (Inl e, g)
      | Inr idBits \<Rightarrow>
          (let sequence' = idBits AND maxSequence g;
               machineId' = shr idBits (sequenceBits g) AND maxMachineId g;
               timestamp = shr idBits (machineIdBits g + sequenceBits g) + EPOCH g
           in (Inr \<lparr> parsed_timestamp = Date_of_Number (Number_of_BigInt timestamp),
                      parsed_machineId = Number_of_BigInt machineId',
                      parsed_sequence = Number_of_BigInt sequence' \<rparr>, g)))"

section \<open>The wrapper of \<^verbatim>\<open>src/customSnowflake.js\<close>\<close>

text \<open>
  The options object is typed: \<open>None\<close> is an absent key, the two bit widths and the
  machine id are integers, the first timestamp is any value. The checks of the keys and
  of the types of the three numbers therefore pass and are not written; the constructor
  is modelled from the check of the type of \<^verbatim>\<open>FirstTimestamp\<close> on. \<open>now\<close> is the reading
  of \<^verbatim>\<open>Date.now()\<close>.
\<close>

record options =
  MachineIdBits :: "int option"
  SequenceBits :: "int option"
  MachineId :: "int option"
  FirstTimestamp :: "js_value option"

record CustomSnowflakeId =
  snowflake :: generator

text \<open>\<^verbatim>\<open>new Date(v).getTime()\<close>: a Number is truncated and clipped, \<open>None\<close> is \<^verbatim>\<open>NaN\<close>.\<close>

fun Date_getTime :: "js_value option \<Rightarrow> int option" where
  "Date_getTime None = None"
| "Date_getTime (Some (JNumber (Num r))) =
     (if \<bar>r\<bar> \<le> 8640000000000000 then Some (if 0 \<le> r then \<lfloor>r\<rfloor> else \<lceil>r\<rceil>) else None)"
| "Date_getTime (Some (JNumber _)) = None"
| "Date_getTime (Some (JDate d)) = d"
| "Date_getTime (Some JOther) = None"

text \<open>Comparisons of a time value with a number are false for \<^verbatim>\<open>NaN\<close>.\<close>

fun num_lt :: "int option \<Rightarrow> int \<Rightarrow> bool" where
  "num_lt None b = False"
| "num_lt (Some a) b = (a < b)"

fun num_gt :: "int option \<Rightarrow> int \<Rightarrow> bool" where
  "num_gt None b = False"
| "num_gt (Some a) b = (a > b)"

fun truthy :: "js_value option \<Rightarrow> bool" where
  "truthy None = False"
| "truthy (Some (JNumber (Num r))) = (r \<noteq> 0)"
| "truthy (Some (JNumber NaN)) = False"
| "truthy (Some _) = True"

text \<open>In a relational comparison \<^verbatim>\<open>null\<close> counts as 0.\<close>

fun null_num :: "int option \<Rightarrow> int" where
  "null_num None = 0"
| "null_num (Some v) = v"

text \<open>\<^verbatim>\<open>x << n\<close> on Numbers: a 32-bit shift by \<open>n mod 32\<close>.\<close>

definition shl32 :: "int \<Rightarrow> int \<Rightarrow> int" where
  "shl32 x n = signed_take_bit 31 (push_bit (nat (n mod 32)) x)"

text \<open>The defaults and the derivation of one bit width from the other.\<close>

fun resolve_bits :: "int option \<Rightarrow> int option \<Rightarrow> int \<times> int" where
  "resolve_bits (Some m) (Some s) = (m, s)"
| "resolve_bits (Some m) None = (m, 22 - m)"
| "resolve_bits None (Some s) = (22 - s, s)"
| "resolve_bits None None = (10, 12)"

definition CustomSnowflakeId_new ::
    "net_address list list \<Rightarrow> int \<Rightarrow> options \<Rightarrow> error + CustomSnowflakeId" where
  "CustomSnowflakeId_new interfaces now opts =
     (if FirstTimestamp opts = Some JOther then Inl FirstTimestampTypeError
      else if (FirstTimestamp opts \<noteq> None \<and> num_lt (Date_getTime (FirstTimestamp opts)) 0)
              \<or> num_gt (Date_getTime (FirstTimestamp opts)) now
        then Inl FirstTimestampOutOfRange
      else
        (let (machineIdBits', sequenceBits') = resolve_bits (MachineIdBits opts) (SequenceBits opts) in
         if machineIdBits' + sequenceBits' \<noteq> 22 then Inl BitsSumError
         else if machineIdBits' \<le> 0 \<or> sequenceBits' \<le> 0 then Inl BitsNotPositive
         else
           (let machineId0 = None in
            if MachineId opts \<noteq> None
               \<and> (null_num machineId0 < 0 \<or> null_num machineId0 > shl32 1 machineIdBits' - 1)
              then Inl MachineIdOutOfRange
            else
              (let machineId' = (if MachineId opts \<noteq> None then MachineId opts else machineId0);
                   firstTimestamp' = (if truthy (FirstTimestamp opts)
                                      then Date_getTime (FirstTimestamp opts)
                                      else Some 1704067200000)
               in case SnowflakeIdGenerator_new interfaces machineIdBits' sequenceBits'
                         machineId' firstTimestamp' of
                    Inl e \<Rightarrow> Inl e
                  | Inr g \<Rightarrow> Inr \<lparr> snowflake = g \<rparr>))))"

definition newId :: "CustomSnowflakeId \<Rightarrow> int list \<Rightarrow> (string \<times> CustomSnowflakeId \<times> int list) option" where
  "newId c clock =
     (case nextId (snowflake c) clock of
        None \<Rightarrow> None
      | Some (uid, g, clock') \<Rightarrow> Some (uid, c\<lparr>snowflake := g\<rparr>, clock'))"

definition getFirstIdAt :: "CustomSnowflakeId \<Rightarrow> js_value \<Rightarrow> (error + string) \<times> CustomSnowflakeId" where
  "getFirstIdAt c timestamp =
     (case getFirstIdAtTimestamp (snowflake c) timestamp of (r, g) \<Rightarrow> (r, c\<lparr>snowflake := g\<rparr>))"

definition getLastIdAt :: "CustomSnowflakeId \<Rightarrow> js_value \<Rightarrow> (error + string) \<times> CustomSnowflakeId" where
  "getLastIdAt c timestamp =
     (case getLastIdAtTimestamp (snowflake c) timestamp of (r, g) \<Rightarrow> (r, c\<lparr>snowflake := g\<rparr>))"

text \<open>The wrapper's \<^verbatim>\<open>parseId\<close> catches every exception and throws its own error.\<close>

definition CustomSnowflakeId_parseId ::
    "CustomSnowflakeId \<Rightarrow> string \<Rightarrow> (error + parsed_id) \<times> CustomSnowflakeId" where
  "CustomSnowflakeId_parseId c snowflakeId =
     (case parseId (snowflake c) snowflakeId of
        (Inl e, g) \<Rightarrow> (Inl InvalidNumericString, c\<lparr>snowflake := g\<rparr>)
      | (Inr parsedContent, g) \<Rightarrow>
          (Inr \<lparr> parsed_timestamp = parsed_timestamp parsedContent,
                  parsed_machineId = parsed_machineId parsedContent,
                  parsed_sequence = parsed_sequence parsedContent \<rparr>, c\<lparr>snowflake := g\<rparr>))"

section \<open>The error kinds of the specification\<close>

text \<open>
  The source throws plain \<^verbatim>\<open>Error\<close> objects; the specification names three kinds.
  An InvalidTimestampError is one of the two errors that the boundary methods throw
  themselves, an InvalidIdError is the SyntaxError of \<^verbatim>\<open>BigInt(id)\<close> or the error the
  wrapper replaces it with, a ConfigurationError is an error thrown by the wrapper's
  constructor itself.
\<close>

definition is_InvalidTimestampError :: "error \<Rightarrow> bool" where
  "is_InvalidTimestampError e = (e = TimestampTypeError \<or> e = TimestampBeforeEpoch)"

definition is_InvalidIdError :: "error \<Rightarrow> bool" where
  "is_InvalidIdError e = (e = BigIntSyntaxError \<or> e = InvalidNumericString)"

definition is_ConfigurationError :: "error \<Rightarrow> bool" where
  "is_ConfigurationError e =
     (e = FirstTimestampTypeError \<or> e = FirstTimestampOutOfRange \<or> e = BitsSumError
      \<or> e = BitsNotPositive \<or> e = MachineIdOutOfRange)"

section \<open>Notions of the specification\<close>

subsection \<open>Configurations and the state invariant\<close>

text \<open>
  A valid configuration has two positive bit widths of sum 22 and the derived constants
  that the constructor of the generator computes from them. The state invariant adds
  that the last timestamp is not before the epoch and that the sequence is within
  \<open>[0, maxSequence]\<close>.
\<close>

definition valid_config :: "generator \<Rightarrow> bool" where
  "valid_config g =
     (0 < machineIdBits g \<and> 0 < sequenceBits g \<and> machineIdBits g + sequenceBits g = 22
      \<and> timestampBits g = 41
      \<and> maxTimestamp g = 2 ^ 41 - 1
      \<and> maxMachineId g = 2 ^ nat (machineIdBits g) - 1
      \<and> maxSequence g = 2 ^ nat (sequenceBits g) - 1)"

definition gen_inv :: "generator \<Rightarrow> bool" where
  "gen_inv g =
     (valid_config g \<and> EPOCH g \<le> ts_num (lastTimestamp g)
      \<and> 0 \<le> sequence g \<and> sequence g \<le> maxSequence g)"

definition machineId_in_range :: "generator \<Rightarrow> bool" where
  "machineId_in_range g = (0 \<le> machineId g \<and> machineId g \<le> maxMachineId g)"

text \<open>
  The identifier composed from the fields of the generator: after a call of
  \<^verbatim>\<open>nextId\<close> it is the identifier that the call returned. An identifier has been issued
  once the last timestamp is a BigInt.
\<close>

definition last_id :: "generator \<Rightarrow> int" where
  "last_id g = compose g (ts_num (lastTimestamp g)) (machineId g) (sequence g)"

fun issued :: "last_ts \<Rightarrow> bool" where
  "issued (DateObj t) = False"
| "issued (BigIntVal t) = True"

text \<open>The instance that \<^verbatim>\<open>index.js\<close> creates, on a host without a network interface.\<close>

definition default_generator :: generator where
  "default_generator =
     \<lparr> timestampBits = 41, machineIdBits = 10, sequenceBits = 12,
       maxTimestamp = 2199023255551, maxMachineId = 1023, maxSequence = 4095,
       machineId = 0, sequence = 0, lastTimestamp = DateObj 1704067200000,
       firstTimestamp = 1704067200000, EPOCH = 1704067200000 \<rparr>"

subsection \<open>Decimal strings as unsigned integers\<close>

definition is_digits :: "(char \<Rightarrow> bool) \<Rightarrow> string \<Rightarrow> bool" where
  "is_digits ok ds = (ds \<noteq> [] \<and> list_all ok ds)"

text \<open>A syntactically valid non-negative integer string: one or more decimal digits.\<close>

definition is_nonneg_integer_string :: "string \<Rightarrow> bool" where
  "is_nonneg_integer_string s = is_digits is_dec_digit s"

definition as_unsigned :: "string \<Rightarrow> nat option" where
  "as_unsigned s = (if is_nonneg_integer_string s then Some (radix_value 10 s) else None)"

definition as_uint64 :: "string \<Rightarrow> nat option" where
  "as_uint64 s =
     (case as_unsigned s of
        None \<Rightarrow> None
      | Some n \<Rightarrow> if n < 2 ^ 64 then Some n else None)"

text \<open>The unsigned integer that the string returned by a boundary method denotes.\<close>

definition unsigned_result :: "(error + string) \<times> generator \<Rightarrow> nat option" where
  "unsigned_result r = (case fst r of Inl e \<Rightarrow> None | Inr s \<Rightarrow> as_unsigned s)"

text \<open>The strings that \<^verbatim>\<open>BigInt\<close> accepts, as a predicate on the trimmed string.\<close>

definition BigInt_literal :: "string \<Rightarrow> bool" where
  "BigInt_literal s =
     (let t = trim s in
      t = []
      \<or> is_digits is_dec_digit t
      \<or> ((hd t = CHR ''+'' \<or> hd t = CHR ''-'') \<and> is_digits is_dec_digit (tl t))
      \<or> ((take 2 t = ''0b'' \<or> take 2 t = ''0B'') \<and> is_digits is_bin_digit (drop 2 t))
      \<or> ((take 2 t = ''0o'' \<or> take 2 t = ''0O'') \<and> is_digits is_oct_digit (drop 2 t))
      \<or> ((take 2 t = ''0x'' \<or> take 2 t = ''0X'') \<and> is_digits is_hex_digit (drop 2 t)))"

subsection \<open>Timestamps given to the boundary methods\<close>

text \<open>
  Whether the argument is an integer Number or a valid Date, and whether it lies
  strictly before the epoch of the generator.
\<close>

fun is_integral :: "js_value \<Rightarrow> bool" where
  "is_integral (JNumber (Num r)) = (of_int \<lfloor>r\<rfloor> = r)"
| "is_integral (JDate (Some t)) = True"
| "is_integral v = False"

fun before_epoch :: "generator \<Rightarrow> js_value \<Rightarrow> bool" where
  "before_epoch g (JNumber (Num r)) = (r < of_int (EPOCH g))"
| "before_epoch g (JNumber NaN) = False"
| "before_epoch g (JNumber PosInfinity) = False"
| "before_epoch g (JNumber NegInfinity) = True"
| "before_epoch g (JDate None) = False"
| "before_epoch g (JDate (Some t)) = (t < EPOCH g)"
| "before_epoch g JOther = False"

definition is_number_or_date :: "js_value \<Rightarrow> bool" where
  "is_number_or_date v = (v \<noteq> JOther)"

section \<open>Auxiliary facts\<close>

subsection \<open>Shifts and masks as arithmetic\<close>

lemma shl_nonneg: "0 \<le> n \<Longrightarrow> shl x n = x * 2 ^ nat n"
  by (simp add: shl_def push_bit_eq_mult)

lemma shr_nonneg: "0 \<le> n \<Longrightarrow> shr x n = x div 2 ^ nat n"
  by (simp add: shr_def drop_bit_eq_div)

lemma and_mask_mod: "(x::int) AND (2 ^ n - 1) = x mod 2 ^ n"
  by (simp flip: mask_eq_exp_minus_1 take_bit_eq_mask add: take_bit_eq_mod)

lemma or_disjoint_add:
  fixes a b :: int
  assumes "0 \<le> b" and "b < 2 ^ n"
  shows "a * 2 ^ n OR b = a * 2 ^ n + b"
proof -
  have b: "take_bit n b = b"
    using assms by (simp add: take_bit_int_eq_self)
  have "\<not> bit (push_bit n a) m \<or> \<not> bit b m" for m
  proof (cases "m < n")
    case True
    then show ?thesis by (simp add: bit_push_bit_iff)
  next
    case False
    have "bit b m = bit (take_bit n b) m" by (simp add: b)
    also have "\<dots> = False" using False by (simp add: bit_take_bit_iff)
    finally show ?thesis by simp
  qed
  then have "push_bit n a + b = push_bit n a OR b"
    by (rule disjunctive_add)
  then show ?thesis by (simp add: push_bit_eq_mult)
qed

text \<open>The three fields of an identifier, with \<open>W = 2^machineIdBits\<close> and \<open>K = 2^sequenceBits\<close>.\<close>

lemma low_bound:
  fixes mid seq :: int
  assumes "0 \<le> mid" "mid < W" "0 \<le> seq" "seq < K"
  shows "0 \<le> mid * K + seq \<and> mid * K + seq < W * K"
proof -
  have "mid + 1 \<le> W" using assms by simp
  then have "(mid + 1) * K \<le> W * K"
    using assms by (intro mult_right_mono) auto
  then have "mid * K + K \<le> W * K" by (simp add: algebra_simps)
  moreover have "0 \<le> mid * K" using assms by simp
  ultimately show ?thesis using assms by linarith
qed

lemma field_seq:
  fixes d mid seq :: int
  assumes "0 \<le> seq" "seq < K"
  shows "(d * (W * K) + mid * K + seq) mod K = seq"
proof -
  have "d * (W * K) + mid * K + seq = seq + (d * W + mid) * K"
    by (simp add: algebra_simps)
  then show ?thesis using assms by simp
qed

lemma field_mid:
  fixes d mid seq :: int
  assumes "0 \<le> mid" "mid < W" "0 \<le> seq" "seq < K"
  shows "((d * (W * K) + mid * K + seq) div K) mod W = mid"
proof -
  have "d * (W * K) + mid * K + seq = seq + (d * W + mid) * K"
    by (simp add: algebra_simps)
  then have "(d * (W * K) + mid * K + seq) div K = d * W + mid"
    using assms by simp
  then show ?thesis using assms by simp
qed

lemma div_add_mult:
  fixes x d P :: int
  assumes "0 \<le> x" "x < P"
  shows "(x + d * P) div P = d"
proof -
  have "P \<noteq> 0" using assms by linarith
  then have "(x + d * P) div P = d + x div P" by simp
  moreover have "x div P = 0" using assms by simp
  ultimately show ?thesis by simp
qed

lemma field_ts:
  fixes d mid seq :: int
  assumes "0 \<le> mid" "mid < W" "0 \<le> seq" "seq < K"
  shows "(d * (W * K) + mid * K + seq) div (W * K) = d"
proof -
  have low: "0 \<le> mid * K + seq \<and> mid * K + seq < W * K"
    using assms by (rule low_bound)
  have eq: "d * (W * K) + mid * K + seq = (mid * K + seq) + d * (W * K)"
    by simp
  show ?thesis
    unfolding eq using low by (intro div_add_mult) auto
qed

subsection \<open>Decimal strings\<close>

lemma digit_cases:
  assumes "d < (10::nat)"
  obtains "d = 0" | "d = 1" | "d = 2" | "d = 3" | "d = 4"
    | "d = 5" | "d = 6" | "d = 7" | "d = 8" | "d = 9"
proof -
  have "d = 0 \<or> d = 1 \<or> d = 2 \<or> d = 3 \<or> d = 4 \<or> d = 5 \<or> d = 6 \<or> d = 7 \<or> d = 8 \<or> d = 9"
    using assms by arith
  then show thesis using that by blast
qed

lemma of_char_digit_char: "d < 10 \<Longrightarrow> of_char (digit_char d) = 48 + d"
  by (erule digit_cases) (simp_all add: digit_char_def)

lemma is_dec_digit_digit_char: "d < 10 \<Longrightarrow> is_dec_digit (digit_char d)"
  by (simp add: is_dec_digit_def of_char_digit_char)

lemma digit_val_digit_char: "d < 10 \<Longrightarrow> digit_val (digit_char d) = d"
  by (simp add: digit_val_def of_char_digit_char)

lemma radix_value_snoc: "radix_value r (ds @ [c]) = r * radix_value r ds + digit_val c"
  by (simp add: radix_value_def)

lemma dec_digits_not_Nil: "dec_digits n \<noteq> []"
  by (subst dec_digits.simps) simp

lemma dec_digits_all: "list_all is_dec_digit (dec_digits n)"
proof (induction n rule: dec_digits.induct)
  case (1 n)
  show ?case
  proof (cases "n < 10")
    case True
    then show ?thesis
      by (subst dec_digits.simps) (simp add: is_dec_digit_digit_char)
  next
    case False
    then have "list_all is_dec_digit (dec_digits (n div 10))"
      by (rule "1.IH")
    then show ?thesis
      using False by (subst dec_digits.simps) (simp add: is_dec_digit_digit_char)
  qed
qed

lemma radix_value_dec_digits: "radix_value 10 (dec_digits n) = n"
proof (induction n rule: dec_digits.induct)
  case (1 n)
  show ?case
  proof (cases "n < 10")
    case True
    then show ?thesis
      by (subst dec_digits.simps) (simp add: radix_value_def digit_val_digit_char)
  next
    case False
    then have "radix_value 10 (dec_digits (n div 10)) = n div 10"
      by (rule "1.IH")
    then show ?thesis
      using False
      by (subst dec_digits.simps) (simp add: radix_value_snoc digit_val_digit_char)
  qed
qed

lemma is_digits_dec_digits: "is_digits is_dec_digit (dec_digits n)"
  by (simp add: is_digits_def dec_digits_not_Nil dec_digits_all)

lemma as_unsigned_toString: "0 \<le> i \<Longrightarrow> as_unsigned (BigInt_toString i) = Some (nat i)"
  by (simp add: as_unsigned_def BigInt_toString_def is_nonneg_integer_string_def
      is_digits_dec_digits radix_value_dec_digits)

lemma dec_digit_not_ws: "is_dec_digit c \<Longrightarrow> \<not> is_ws c"
  by (auto simp: is_dec_digit_def is_ws_def)

lemma trim_no_ws_ends:
  assumes "s \<noteq> []" "\<not> is_ws (hd s)" "\<not> is_ws (last s)"
  shows "trim s = s"
proof -
  have "dropWhile is_ws s = s"
    using assms by (cases s) auto
  moreover have "dropWhile is_ws (rev s) = rev s"
    using assms by (cases "rev s") (auto simp: last_rev [symmetric] hd_rev)
  ultimately show ?thesis by (simp add: trim_def)
qed


lemma StrIntegerLiteral_digits:
  assumes "is_digits is_dec_digit ds"
  shows "StrIntegerLiteral ds = Inr (int (radix_value 10 ds))"
proof (cases ds)
  case Nil
  then show ?thesis using assms by (simp add: is_digits_def)
next
  case (Cons c cs)
  note outer = Cons
  show ?thesis
  proof (cases cs)
    case Nil
    then show ?thesis using assms outer by (simp add: digits_of_def is_digits_def)
  next
    case (Cons d ds')
    have "is_dec_digit c" "is_dec_digit d"
      using assms outer Cons by (simp_all add: is_digits_def)
    then have "c \<noteq> CHR ''+''" "c \<noteq> CHR ''-''"
      "d \<noteq> CHR ''b''" "d \<noteq> CHR ''B''" "d \<noteq> CHR ''o''" "d \<noteq> CHR ''O''"
      "d \<noteq> CHR ''x''" "d \<noteq> CHR ''X''"
      by (auto simp: is_dec_digit_def)
    then show ?thesis
      using assms outer Cons by (simp add: digits_of_def is_digits_def)
  qed
qed

lemma StrIntegerLiteral_minus_digits:
  assumes "is_digits is_dec_digit ds"
  shows "StrIntegerLiteral (CHR ''-'' # ds) = Inr (- int (radix_value 10 ds))"
proof (cases ds)
  case Nil
  then show ?thesis using assms by (simp add: is_digits_def)
next
  case (Cons d ds')
  then show ?thesis
    using assms by (simp add: digits_of_def is_digits_def)
qed

lemma trim_digits:
  assumes "is_digits is_dec_digit ds"
  shows "trim ds = ds" and "trim (CHR ''-'' # ds) = CHR ''-'' # ds"
proof -
  have ne: "ds \<noteq> []" and all: "list_all is_dec_digit ds"
    using assms by (simp_all add: is_digits_def)
  have "is_dec_digit (hd ds)" "is_dec_digit (last ds)"
    using ne all by (simp_all add: list_all_iff)
  then have ends: "\<not> is_ws (hd ds)" "\<not> is_ws (last ds)"
    by (simp_all add: dec_digit_not_ws)
  show "trim ds = ds"
    using ne ends by (rule trim_no_ws_ends)
  have "\<not> is_ws (CHR ''-'')"
    by (simp add: is_ws_def)
  then show "trim (CHR ''-'' # ds) = CHR ''-'' # ds"
    using ne ends by (intro trim_no_ws_ends) simp_all
qed

lemma BigInt_of_string_toString: "BigInt_of_string (BigInt_toString i) = Inr i"
proof (cases "i < 0")
  case True
  then show ?thesis
    by (simp add: BigInt_of_string_def BigInt_toString_def trim_digits
        is_digits_dec_digits StrIntegerLiteral_minus_digits radix_value_dec_digits)
next
  case False
  then show ?thesis
    by (simp add: BigInt_of_string_def BigInt_toString_def trim_digits
        is_digits_dec_digits StrIntegerLiteral_digits radix_value_dec_digits dec_digits_not_Nil)
qed

section \<open>Construction\<close>

lemma valid_config_default: "valid_config default_generator"
  by (simp add: valid_config_def default_generator_def)

lemma index_js_instance:
  "SnowflakeIdGenerator_new [] 10 12 None (Some 1704067200000) = Inr default_generator"
  by (simp add: SnowflakeIdGenerator_new_def bigint_pow_def default_generator_def
      generateMachineId_def select_mac_def)

lemma SnowflakeIdGenerator_new_inv:
  assumes "SnowflakeIdGenerator_new interfaces m s mid ft = Inr g"
    and "0 < m" "0 < s" "m + s = 22"
  shows "gen_inv g"
  using assms
  by (auto simp: SnowflakeIdGenerator_new_def bigint_pow_def gen_inv_def valid_config_def
      split: option.splits if_splits)

lemma CustomSnowflakeId_new_inv:
  assumes "CustomSnowflakeId_new interfaces now opts = Inr c"
  shows "gen_inv (snowflake c)"
proof -
  obtain m s where ms: "resolve_bits (MachineIdBits opts) (SequenceBits opts) = (m, s)"
    by (cases "resolve_bits (MachineIdBits opts) (SequenceBits opts)")
  from assms ms obtain mid ft g where
    "SnowflakeIdGenerator_new interfaces m s mid ft = Inr g" "c = \<lparr>snowflake = g\<rparr>"
    "0 < m" "0 < s" "m + s = 22"
    by (auto simp: CustomSnowflakeId_new_def Let_def split: if_splits sum.splits)
  then show ?thesis
    using SnowflakeIdGenerator_new_inv by auto
qed

lemma generateMachineId_in_range:
  assumes "0 \<le> mx"
  shows "0 \<le> generateMachineId interfaces mx \<and> generateMachineId interfaces mx \<le> mx"
  using assms by (simp add: generateMachineId_def split: option.splits)

text \<open>
  Every generator that the package creates satisfies the invariant. The machine id of
  the default instance of \<^verbatim>\<open>index.js\<close>, which is derived from the host, lies in range; so
  does the machine id of a custom instance when the option is absent or in range.
\<close>

lemma default_instance_ok:
  assumes "SnowflakeIdGenerator_new interfaces 10 12 None (Some 1704067200000) = Inr g"
  shows "gen_inv g \<and> machineId_in_range g"
proof -
  have "gen_inv g"
    using assms by (rule SnowflakeIdGenerator_new_inv) simp_all
  moreover have "machineId g = generateMachineId interfaces 1023" "maxMachineId g = 1023"
    using assms by (auto simp: SnowflakeIdGenerator_new_def bigint_pow_def)
  ultimately show ?thesis
    using generateMachineId_in_range [of 1023 interfaces] by (simp add: machineId_in_range_def)
qed

lemma custom_instance_in_range:
  assumes "CustomSnowflakeId_new interfaces now opts = Inr c"
    and "MachineId opts = None
      \<or> (\<exists>m. MachineId opts = Some m \<and> 0 \<le> m \<and> m \<le> maxMachineId (snowflake c))"
  shows "machineId_in_range (snowflake c)"
proof -
  obtain mb sb where ms: "resolve_bits (MachineIdBits opts) (SequenceBits opts) = (mb, sb)"
    by (cases "resolve_bits (MachineIdBits opts) (SequenceBits opts)")
  from assms(1) ms obtain ft g where
    g: "SnowflakeIdGenerator_new interfaces mb sb (MachineId opts) ft = Inr g"
      "c = \<lparr>snowflake = g\<rparr>"
    by (auto simp: CustomSnowflakeId_new_def Let_def split: if_splits sum.splits)
  have "maxMachineId g = 2 ^ nat (machineIdBits g) - 1"
    using CustomSnowflakeId_new_inv [OF assms(1)] g(2)
    by (simp add: gen_inv_def valid_config_def)
  moreover have "(1::int) \<le> 2 ^ nat (machineIdBits g)"
    by (rule one_le_power) simp
  ultimately have mx: "0 \<le> maxMachineId g"
    by simp
  show ?thesis
  proof (cases "MachineId opts")
    case None
    with g(1) have "machineId g = generateMachineId interfaces (maxMachineId g)"
      by (auto simp: SnowflakeIdGenerator_new_def split: sum.splits option.splits)
    with mx generateMachineId_in_range [of "maxMachineId g" interfaces] g(2) show ?thesis
      by (simp add: machineId_in_range_def)
  next
    case (Some m)
    with g(1) have "machineId g = m"
      by (auto simp: SnowflakeIdGenerator_new_def split: sum.splits option.splits)
    with Some assms(2) g(2) show ?thesis
      by (simp add: machineId_in_range_def)
  qed
qed

text \<open>
  Claim C8, at the input where the code departs from it. The constructor is given
  \<^verbatim>\<open>MachineIdBits: 10, SequenceBits: 12, MachineId: 1024\<close>, a machine id above
  \<open>2^10 - 1 = 1023\<close>. Its range check compares the local variable \<^verbatim>\<open>machineId\<close>, which is
  still \<^verbatim>\<open>null\<close>, and not the option \<^verbatim>\<open>MachineId\<close>: construction succeeds and the
  generator holds the machine id 1024.
\<close>

theorem C8_out_of_range_MachineId_accepted:
  "CustomSnowflakeId_new [] now
     \<lparr> MachineIdBits = Some 10, SequenceBits = Some 12, MachineId = Some 1024, FirstTimestamp = None \<rparr>
   = Inr \<lparr> snowflake = default_generator \<lparr> machineId := 1024 \<rparr> \<rparr>
   \<and> \<not> machineId_in_range (default_generator \<lparr> machineId := 1024 \<rparr>)"
  by (simp add: CustomSnowflakeId_new_def SnowflakeIdGenerator_new_def bigint_pow_def shl32_def
      default_generator_def machineId_in_range_def)

text \<open>
  The range check of the machine id never throws: the variable it tests is \<^verbatim>\<open>null\<close>,
  which counts as 0.
\<close>

lemma shl32_small:
  assumes "0 < n" "n < 31"
  shows "shl32 1 n = 2 ^ nat n"
proof -
  have "nat n < 31" using assms by simp
  then have "(2::int) ^ nat n < 2 ^ 31"
    by (intro power_strict_increasing) simp_all
  moreover have "- (2 ^ 31) \<le> (2::int) ^ nat n"
    by (rule order_trans [of _ 0]) simp_all
  ultimately have "signed_take_bit 31 ((2::int) ^ nat n) = 2 ^ nat n"
    by (simp add: signed_take_bit_int_eq_self)
  moreover have "n mod 32 = n" using assms by simp
  ultimately show ?thesis by (simp add: shl32_def)
qed

lemma SnowflakeIdGenerator_new_errors:
  assumes "SnowflakeIdGenerator_new interfaces m s mid ft = Inl e"
  shows "e = ExponentRangeError \<or> e = BigIntRangeError"
  using assms
  by (auto simp: SnowflakeIdGenerator_new_def bigint_pow_def split: option.splits if_splits)

lemma SnowflakeIdGenerator_new_not_MachineIdOutOfRange:
  "SnowflakeIdGenerator_new interfaces m s mid ft \<noteq> Inl MachineIdOutOfRange"
  using SnowflakeIdGenerator_new_errors [of interfaces m s mid ft MachineIdOutOfRange] by auto

lemma MachineId_check_never_fails:
  "CustomSnowflakeId_new interfaces now opts \<noteq> Inl MachineIdOutOfRange"
proof
  assume a: "CustomSnowflakeId_new interfaces now opts = Inl MachineIdOutOfRange"
  obtain m s where ms: "resolve_bits (MachineIdBits opts) (SequenceBits opts) = (m, s)"
    by (cases "resolve_bits (MachineIdBits opts) (SequenceBits opts)")
  show False
  proof (cases "0 < m \<and> 0 < s \<and> m + s = 22")
    case False
    then show False
      using a ms by (auto simp: CustomSnowflakeId_new_def split: if_splits)
  next
    case True
    then have "shl32 1 m = 2 ^ nat m"
      by (intro shl32_small) auto
    moreover have "(1::int) \<le> 2 ^ nat m"
      by (rule one_le_power) simp
    ultimately have "\<not> (0 > shl32 1 m - 1)" by linarith
    then show False
      using a ms True
      by (auto simp: CustomSnowflakeId_new_def Let_def SnowflakeIdGenerator_new_not_MachineIdOutOfRange
          split: if_splits sum.splits)
  qed
qed

text \<open>
  Claim C9: construction succeeds only if the two bit widths, after the defaults and the
  derivation of a missing one, are both strictly positive and of sum 22, and the
  generator then holds these widths; for every other pair of widths construction fails
  with a ConfigurationError.
\<close>

theorem C9_bit_widths:
  assumes "resolve_bits (MachineIdBits opts) (SequenceBits opts) = (m, s)"
  shows "(\<forall>c. CustomSnowflakeId_new interfaces now opts = Inr c \<longrightarrow>
            0 < m \<and> 0 < s \<and> m + s = 22
            \<and> machineIdBits (snowflake c) = m \<and> sequenceBits (snowflake c) = s)
       \<and> (\<not> (0 < m \<and> 0 < s \<and> m + s = 22) \<longrightarrow>
            (\<exists>e. CustomSnowflakeId_new interfaces now opts = Inl e \<and> is_ConfigurationError e))"
proof -
  have succeeds: "0 < m \<and> 0 < s \<and> m + s = 22
      \<and> machineIdBits (snowflake c) = m \<and> sequenceBits (snowflake c) = s"
    if ok: "CustomSnowflakeId_new interfaces now opts = Inr c" for c
  proof -
    from ok assms obtain mid ft g where
      g: "SnowflakeIdGenerator_new interfaces m s mid ft = Inr g" "c = \<lparr>snowflake = g\<rparr>"
      and pos: "0 < m" "0 < s" "m + s = 22"
      by (auto simp: CustomSnowflakeId_new_def Let_def split: if_splits sum.splits)
    from g have "machineIdBits g = m" "sequenceBits g = s"
      by (auto simp: SnowflakeIdGenerator_new_def split: sum.splits option.splits)
    with g pos show ?thesis by simp
  qed
  have fails: "\<exists>e. CustomSnowflakeId_new interfaces now opts = Inl e \<and> is_ConfigurationError e"
    if "\<not> (0 < m \<and> 0 < s \<and> m + s = 22)"
    using that assms by (auto simp: CustomSnowflakeId_new_def is_ConfigurationError_def)
  from succeeds fails show ?thesis by blast
qed

theorem C9_bit_widths_witness:
  "(\<exists>c. CustomSnowflakeId_new [] 1790000000000
          \<lparr> MachineIdBits = Some 8, SequenceBits = None, MachineId = Some 3, FirstTimestamp = None \<rparr> = Inr c
        \<and> machineIdBits (snowflake c) = 8 \<and> sequenceBits (snowflake c) = 14)
   \<and> CustomSnowflakeId_new [] 1790000000000
          \<lparr> MachineIdBits = Some 10, SequenceBits = Some 13, MachineId = Some 3, FirstTimestamp = None \<rparr>
       = Inl BitsSumError
   \<and> is_ConfigurationError BitsSumError"
proof -
  let ?o1 = "\<lparr> MachineIdBits = Some 8, SequenceBits = None, MachineId = Some 3, FirstTimestamp = None \<rparr>"
  let ?o2 = "\<lparr> MachineIdBits = Some 10, SequenceBits = Some 13, MachineId = Some 3, FirstTimestamp = None \<rparr>"
  have r1: "resolve_bits (MachineIdBits ?o1) (SequenceBits ?o1) = (8, 14)" by simp
  have r2: "resolve_bits (MachineIdBits ?o2) (SequenceBits ?o2) = (10, 13)" by simp
  have ex: "\<exists>c. CustomSnowflakeId_new [] 1790000000000 ?o1 = Inr c"
    by (simp add: CustomSnowflakeId_new_def SnowflakeIdGenerator_new_def bigint_pow_def shl32_def)
  have bad: "\<not> (0 < (10::int) \<and> 0 < (13::int) \<and> (10::int) + 13 = 22)" by simp
  from C9_bit_widths [OF r1, of "[]" 1790000000000] ex
  have a: "\<exists>c. CustomSnowflakeId_new [] 1790000000000 ?o1 = Inr c
        \<and> machineIdBits (snowflake c) = 8 \<and> sequenceBits (snowflake c) = 14"
    by blast
  from C9_bit_widths [OF r2, of "[]" 1790000000000] bad
  have "\<exists>e. CustomSnowflakeId_new [] 1790000000000 ?o2 = Inl e \<and> is_ConfigurationError e"
    by blast
  moreover have "CustomSnowflakeId_new [] 1790000000000 ?o2 = Inl BitsSumError"
    by (simp add: CustomSnowflakeId_new_def)
  ultimately have b: "CustomSnowflakeId_new [] 1790000000000 ?o2 = Inl BitsSumError
      \<and> is_ConfigurationError BitsSumError"
    by auto
  from a b show ?thesis by blast
qed

section \<open>Effects of the methods on the generator\<close>

lemma spin_Some:
  assumes "spin again clock = Some (t, rest)"
  shows "\<not> again t \<and> t \<in> set clock \<and> set rest \<subseteq> set clock"
  using assms by (induction clock) (auto split: if_splits)

text \<open>
  What a returning call of \<^verbatim>\<open>nextId\<close> does: it adopts a reading \<open>t\<close> of the clock that
  is not before the last timestamp; either \<open>t\<close> is the last timestamp and the sequence
  was incremented without wrapping, or the sequence is reset to 0.
\<close>

lemma nextId_result:
  assumes "nextId g clock = Some (uid, g', clock')"
  obtains t s where
    "g' = g\<lparr>sequence := s, lastTimestamp := BigIntVal t\<rparr>"
    "uid = BigInt_toString (compose g t (machineId g) s)"
    "t \<in> set clock" "set clock' \<subseteq> set clock"
    "ts_num (lastTimestamp g) \<le> t"
    "(lastTimestamp g = BigIntVal t \<and> s = (sequence g + 1) AND maxSequence g \<and> s \<noteq> 0)
     \<or> (s = 0 \<and> lastTimestamp g \<noteq> BigIntVal t)"
proof -
  from assms obtain t1 c1 where
    sp: "spin (\<lambda>timestamp. timestamp < ts_num (lastTimestamp g)) clock = Some (t1, c1)"
    by (auto simp: nextId_def split: option.splits)
  then have t1: "ts_num (lastTimestamp g) \<le> t1" "t1 \<in> set clock" "set c1 \<subseteq> set clock"
    using spin_Some [OF sp] by auto
  show thesis
  proof (cases "lastTimestamp g = BigIntVal t1")
    case False
    with assms sp have "g' = g\<lparr>sequence := 0, lastTimestamp := BigIntVal t1\<rparr>"
      "uid = BigInt_toString (compose g t1 (machineId g) 0)" "clock' = c1"
      by (auto simp: nextId_def compose_def Let_def)
    with t1 False show thesis by (intro that [of t1 0]) auto
  next
    case same: True
    show thesis
    proof (cases "(sequence g + 1) AND maxSequence g = 0")
      case False
      with assms sp same have
        "g' = g\<lparr>sequence := (sequence g + 1) AND maxSequence g, lastTimestamp := BigIntVal t1\<rparr>"
        "uid = BigInt_toString (compose g t1 (machineId g) ((sequence g + 1) AND maxSequence g))"
        "clock' = c1"
        by (auto simp: nextId_def compose_def Let_def)
      with t1 False same show thesis
        by (intro that [of t1 "(sequence g + 1) AND maxSequence g"]) auto
    next
      case True
      with assms sp same obtain t2 where
        w: "spin (\<lambda>timestamp. timestamp \<le> t1) c1 = Some (t2, clock')"
        and g': "g' = g\<lparr>sequence := 0, lastTimestamp := BigIntVal t2\<rparr>"
        and uid: "uid = BigInt_toString (compose g t2 (machineId g) 0)"
        by (auto simp: nextId_def compose_def Let_def waitNextMillis_def split: option.splits)
      from spin_Some [OF w] have "t1 < t2" "t2 \<in> set c1" "set clock' \<subseteq> set c1"
        by auto
      with t1 same g' uid show thesis
        by (intro that [of t2 0]) auto
    qed
  qed
qed

text \<open>
  Claim C10: \<^verbatim>\<open>getFirstIdAtTimestamp\<close>, \<^verbatim>\<open>getLastIdAtTimestamp\<close> and \<^verbatim>\<open>parseId\<close>
  leave the generator as it is, whatever their argument and whether they return or
  throw; a call of \<^verbatim>\<open>nextId\<close> changes at most the fields \<^verbatim>\<open>sequence\<close> and
  \<^verbatim>\<open>lastTimestamp\<close>.
\<close>

theorem C10_frame:
  "snd (getFirstIdAtTimestamp g timestamp) = g
   \<and> snd (getLastIdAtTimestamp g timestamp) = g
   \<and> snd (parseId g uid) = g
   \<and> (\<forall>uid' g' clock'. nextId g clock = Some (uid', g', clock') \<longrightarrow>
         g' = g\<lparr>sequence := sequence g', lastTimestamp := lastTimestamp g'\<rparr>)"
proof -
  have "snd (getFirstIdAtTimestamp g timestamp) = g"
    by (simp add: getFirstIdAtTimestamp_def split: sum.splits)
  moreover have "snd (getLastIdAtTimestamp g timestamp) = g"
    by (simp add: getLastIdAtTimestamp_def split: sum.splits)
  moreover have "snd (parseId g uid) = g"
    by (simp add: parseId_def Let_def split: sum.splits)
  moreover have "g' = g\<lparr>sequence := sequence g', lastTimestamp := lastTimestamp g'\<rparr>"
    if "nextId g clock = Some (uid', g', clock')" for uid' g' clock'
    using that by (rule nextId_result) simp
  ultimately show ?thesis by blast
qed

theorem C10_frame_witness:
  "snd (getFirstIdAtTimestamp default_generator (JNumber (Num 5))) = default_generator
   \<and> snd (getLastIdAtTimestamp default_generator (JNumber (Num 5))) = default_generator
   \<and> snd (parseId default_generator ''not-a-number'') = default_generator
   \<and> (\<exists>g'. nextId default_generator [1704067200000] = Some (''0'', g', [])
         \<and> g' = default_generator\<lparr>sequence := sequence g', lastTimestamp := lastTimestamp g'\<rparr>
         \<and> lastTimestamp g' \<noteq> lastTimestamp default_generator)"
proof -
  have run: "nextId default_generator [1704067200000]
      = Some (''0'', default_generator\<lparr>sequence := 0, lastTimestamp := BigIntVal 1704067200000\<rparr>, [])"
    by (simp add: nextId_def default_generator_def compose_def shl_def BigInt_toString_def
        dec_digits.simps digit_char_def)
  moreover have "lastTimestamp default_generator = DateObj 1704067200000"
    by (simp add: default_generator_def)
  ultimately show ?thesis
    using C10_frame [of default_generator "JNumber (Num 5)" "''not-a-number''" "[1704067200000]"]
    by auto
qed

section \<open>Composition and decoding of identifiers\<close>

lemma valid_config_bounds:
  assumes "valid_config g"
  shows "0 \<le> maxMachineId g" "0 \<le> maxSequence g"
    "maxMachineId g < 2 ^ 53" "maxSequence g < 2 ^ 53"
    "(2::int) ^ nat (machineIdBits g) * 2 ^ nat (sequenceBits g) = 2 ^ 22"
proof -
  have mb: "maxMachineId g = 2 ^ nat (machineIdBits g) - 1"
    and sb: "maxSequence g = 2 ^ nat (sequenceBits g) - 1"
    and sum: "nat (machineIdBits g) + nat (sequenceBits g) = 22"
    using assms by (auto simp: valid_config_def)
  have "(1::int) \<le> 2 ^ nat (machineIdBits g)" "(1::int) \<le> 2 ^ nat (sequenceBits g)"
    by (rule one_le_power, simp)+
  then show "0 \<le> maxMachineId g" "0 \<le> maxSequence g"
    using mb sb by simp_all
  have "nat (machineIdBits g) \<le> 53" "nat (sequenceBits g) \<le> 53"
    using sum by simp_all
  then have "(2::int) ^ nat (machineIdBits g) \<le> 2 ^ 53" "(2::int) ^ nat (sequenceBits g) \<le> 2 ^ 53"
    by (simp_all only: power_increasing_iff [of "2::int"] semiring_norm)
  then show "maxMachineId g < 2 ^ 53" "maxSequence g < 2 ^ 53"
    using mb sb by simp_all
  show "(2::int) ^ nat (machineIdBits g) * 2 ^ nat (sequenceBits g) = 2 ^ 22"
    using sum by (simp flip: power_add)
qed

text \<open>
  Under a valid configuration and with fields in range, the bitwise composition of an
  identifier is the sum of its three shifted fields, and masking and shifting recover
  each field.
\<close>

lemma compose_arith:
  assumes "valid_config g" "0 \<le> mid" "mid \<le> maxMachineId g" "0 \<le> seq" "seq \<le> maxSequence g"
  shows "compose g t mid seq =
    (t - EPOCH g) * (2 ^ nat (machineIdBits g) * 2 ^ nat (sequenceBits g))
    + mid * 2 ^ nat (sequenceBits g) + seq"
proof -
  define W :: int where "W = 2 ^ nat (machineIdBits g)"
  define K :: int where "K = 2 ^ nat (sequenceBits g)"
  define d where "d = t - EPOCH g"
  have pos: "0 < machineIdBits g" "0 < sequenceBits g"
    using assms(1) by (simp_all add: valid_config_def)
  have mid: "mid < W" and seq: "seq < K"
    using assms by (simp_all add: valid_config_def W_def K_def)
  have WK: "(2::int) ^ nat (machineIdBits g + sequenceBits g) = W * K"
    using pos by (simp add: W_def K_def nat_add_distrib power_add)
  have low: "0 \<le> mid * K \<and> mid * K < W * K"
    using low_bound [of mid W 0 K] assms mid seq by simp
  have hi: "d * (W * K) OR mid * K = d * (W * K) + mid * K"
    using low or_disjoint_add [of "mid * K" "nat (machineIdBits g + sequenceBits g)" d]
    by (simp add: WK)
  have lo: "(d * W + mid) * K OR seq = (d * W + mid) * K + seq"
    using assms seq or_disjoint_add [of seq "nat (sequenceBits g)" "d * W + mid"]
    by (simp add: K_def)
  have regroup: "d * (W * K) + mid * K = (d * W + mid) * K"
    by (simp add: algebra_simps)
  have "compose g t mid seq = (d * (W * K) OR mid * K) OR seq"
    using pos by (simp add: compose_def shl_nonneg WK d_def) (simp add: K_def)
  also have "\<dots> = (d * W + mid) * K OR seq"
    by (simp only: hi regroup)
  also have "\<dots> = (d * W + mid) * K + seq"
    by (rule lo)
  also have "\<dots> = d * (W * K) + mid * K + seq"
    by (simp only: regroup)
  finally show ?thesis
    by (simp only: W_def K_def d_def)
qed

lemma compose_fields:
  assumes "valid_config g" "0 \<le> mid" "mid \<le> maxMachineId g" "0 \<le> seq" "seq \<le> maxSequence g"
  shows "compose g t mid seq AND maxSequence g = seq"
    and "shr (compose g t mid seq) (sequenceBits g) AND maxMachineId g = mid"
    and "shr (compose g t mid seq) (machineIdBits g + sequenceBits g) = t - EPOCH g"
proof -
  define W :: int where "W = 2 ^ nat (machineIdBits g)"
  define K :: int where "K = 2 ^ nat (sequenceBits g)"
  define d where "d = t - EPOCH g"
  have pos: "0 < machineIdBits g" "0 < sequenceBits g"
    using assms(1) by (simp_all add: valid_config_def)
  have mx: "maxMachineId g = W - 1" "maxSequence g = K - 1"
    using assms(1) by (simp_all add: valid_config_def W_def K_def)
  have mid: "mid < W" and seq: "seq < K"
    using assms mx by simp_all
  have WK: "(2::int) ^ nat (machineIdBits g + sequenceBits g) = W * K"
    using pos by (simp add: W_def K_def nat_add_distrib power_add)
  have c: "compose g t mid seq = d * (W * K) + mid * K + seq"
    using compose_arith [OF assms] by (simp add: W_def K_def d_def)
  have "(d * (W * K) + mid * K + seq) mod K = seq"
    using assms seq by (intro field_seq) auto
  then show "compose g t mid seq AND maxSequence g = seq"
    unfolding c mx by (simp add: K_def and_mask_mod)
  have "((d * (W * K) + mid * K + seq) div K) mod W = mid"
    using assms mid seq by (intro field_mid) auto
  then show "shr (compose g t mid seq) (sequenceBits g) AND maxMachineId g = mid"
    unfolding c mx using pos by (simp add: shr_nonneg) (simp add: K_def W_def and_mask_mod)
  have "(d * (W * K) + mid * K + seq) div (W * K) = d"
    using assms mid seq by (intro field_ts) auto
  then show "shr (compose g t mid seq) (machineIdBits g + sequenceBits g) = t - EPOCH g"
    unfolding c using pos by (simp add: shr_nonneg WK d_def)
qed

section \<open>Boundary identifiers\<close>

lemma Date_of_Number_TimeClip: "Date_of_Number (Number_of_BigInt t) = TimeClip t"
  by (simp add: Number_of_BigInt_def TimeClip_def)

lemma parseId_compose:
  assumes "valid_config g" "0 \<le> mid" "mid \<le> maxMachineId g" "0 \<le> seq" "seq \<le> maxSequence g"
  shows "parseId g (BigInt_toString (compose g t mid seq)) =
    (Inr \<lparr> parsed_timestamp = TimeClip t, parsed_machineId = Some mid, parsed_sequence = Some seq \<rparr>, g)"
proof -
  have "\<bar>mid\<bar> \<le> 2 ^ 53" "\<bar>seq\<bar> \<le> 2 ^ 53"
    using assms valid_config_bounds [OF assms(1)] by simp_all
  then have "Number_of_BigInt mid = Some mid" "Number_of_BigInt seq = Some seq"
    by (simp_all add: Number_of_BigInt_def)
  then show ?thesis
    using compose_fields [OF assms, of t]
    by (simp add: parseId_def BigInt_of_string_toString Date_of_Number_TimeClip)
qed

lemma compose_zero: "compose g t 0 0 = shl (t - EPOCH g) (machineIdBits g + sequenceBits g)"
  by (simp add: compose_def shl_def)

lemma compose_max:
  assumes "valid_config g"
  shows "compose g t (maxMachineId g) (maxSequence g) = (t - EPOCH g) * 2 ^ 22 + (2 ^ 22 - 1)"
proof -
  define W :: int where "W = 2 ^ nat (machineIdBits g)"
  define K :: int where "K = 2 ^ nat (sequenceBits g)"
  have mx: "maxMachineId g = W - 1" "maxSequence g = K - 1"
    using assms by (simp_all add: valid_config_def W_def K_def)
  have WK: "W * K = 2 ^ 22"
    using valid_config_bounds(5) [OF assms] by (simp add: W_def K_def)
  have "compose g t (maxMachineId g) (maxSequence g)
      = (t - EPOCH g) * (W * K) + maxMachineId g * K + maxSequence g"
    using compose_arith [of g "maxMachineId g" "maxSequence g" t] assms
      valid_config_bounds(1,2) [OF assms]
    by (simp add: W_def K_def)
  also have "\<dots> = (t - EPOCH g) * (W * K) + (W - 1) * K + (K - 1)"
    by (simp only: mx)
  also have "\<dots> = (t - EPOCH g) * (W * K) + (W * K - 1)"
    by (simp add: algebra_simps)
  finally show ?thesis by (simp add: WK)
qed

lemma compose_first:
  assumes "valid_config g"
  shows "compose g t 0 0 = (t - EPOCH g) * 2 ^ 22"
  using compose_arith [of g 0 0 t] assms valid_config_bounds [OF assms] by simp

lemma getFirstIdAtTimestamp_ok:
  assumes "timestamp_to_BigInt ts = Inr T" "EPOCH g \<le> T"
  shows "getFirstIdAtTimestamp g ts = (Inr (BigInt_toString (compose g T 0 0)), g)"
  using assms by (simp add: getFirstIdAtTimestamp_def)

lemma getLastIdAtTimestamp_ok:
  assumes "timestamp_to_BigInt ts = Inr T" "EPOCH g \<le> T"
  shows "getLastIdAtTimestamp g ts =
    (Inr (BigInt_toString (compose g T (maxMachineId g) (maxSequence g))), g)"
  using assms by (simp add: getLastIdAtTimestamp_def)

lemma shl_least:
  assumes "0 \<le> k" "shr x k = d"
  shows "shl d k \<le> x"
proof -
  have "x div 2 ^ nat k * 2 ^ nat k \<le> x"
    by (simp add: minus_mod_eq_div_mult [symmetric])
  then show ?thesis
    using assms by (simp add: shl_nonneg shr_nonneg)
qed

lemma shr_shl: "0 \<le> k \<Longrightarrow> shr (shl d k) k = d"
  by (simp add: shl_nonneg shr_nonneg)

text \<open>
  Claim C4: for a timestamp \<open>T\<close> (an integer Number or a valid Date) that is not before
  the epoch, \<^verbatim>\<open>getFirstIdAtTimestamp\<close> returns the decimal string of
  \<open>(T - EPOCH) << (machineIdBits + sequenceBits)\<close>. That identifier has the timestamp
  field \<open>T - EPOCH\<close>, and it is the least integer with this timestamp field. With 10
  and 12 bits and \<open>T\<close> one millisecond after the epoch the string is \<open>4194304\<close>.
\<close>

theorem C4_first_id:
  assumes "valid_config g" and "timestamp_to_BigInt ts = Inr T" and "EPOCH g \<le> T"
  shows "fst (getFirstIdAtTimestamp g ts)
           = Inr (BigInt_toString (shl (T - EPOCH g) (machineIdBits g + sequenceBits g)))
       \<and> shr (shl (T - EPOCH g) (machineIdBits g + sequenceBits g))
               (machineIdBits g + sequenceBits g) = T - EPOCH g
       \<and> (\<forall>x. shr x (machineIdBits g + sequenceBits g) = T - EPOCH g \<longrightarrow>
               shl (T - EPOCH g) (machineIdBits g + sequenceBits g) \<le> x)
       \<and> (machineIdBits g = 10 \<and> sequenceBits g = 12 \<and> T = EPOCH g + 1 \<longrightarrow>
               fst (getFirstIdAtTimestamp g ts) = Inr ''4194304'')"
proof -
  have k: "0 \<le> machineIdBits g + sequenceBits g"
    using assms(1) by (simp add: valid_config_def)
  have first: "fst (getFirstIdAtTimestamp g ts)
      = Inr (BigInt_toString (shl (T - EPOCH g) (machineIdBits g + sequenceBits g)))"
    using assms by (simp add: getFirstIdAtTimestamp_ok compose_zero)
  have "BigInt_toString (shl 1 22) = ''4194304''"
    by (simp add: shl_def push_bit_eq_mult BigInt_toString_def dec_digits.simps digit_char_def)
  then have ex: "fst (getFirstIdAtTimestamp g ts) = Inr ''4194304''"
    if "machineIdBits g = 10 \<and> sequenceBits g = 12 \<and> T = EPOCH g + 1"
    using that first by simp
  from first shr_shl [OF k] shl_least [OF k] ex show ?thesis by blast
qed

theorem C4_first_id_witness:
  "fst (getFirstIdAtTimestamp default_generator (JDate (Some 1704067200001))) = Inr ''4194304''
   \<and> shr 4194304 22 = 1
   \<and> 4194304 \<le> (4194999 :: int)"
proof -
  have v: "valid_config default_generator"
    by (simp add: valid_config_def default_generator_def)
  have t: "timestamp_to_BigInt (JDate (Some 1704067200001)) = Inr 1704067200001"
    by simp
  have e: "EPOCH default_generator \<le> 1704067200001"
    by (simp add: default_generator_def)
  have b: "machineIdBits default_generator = 10 \<and> sequenceBits default_generator = 12
      \<and> (1704067200001::int) = EPOCH default_generator + 1"
    by (simp add: default_generator_def)
  have x: "shr 4194999 (machineIdBits default_generator + sequenceBits default_generator)
      = 1704067200001 - EPOCH default_generator"
    by (simp add: default_generator_def shr_def drop_bit_eq_div)
  have s: "shl (1704067200001 - EPOCH default_generator)
      (machineIdBits default_generator + sequenceBits default_generator) = 4194304"
    by (simp add: default_generator_def shl_def push_bit_eq_mult)
  from C4_first_id [OF v t e] b x s show ?thesis
    by (simp add: shr_def drop_bit_eq_div BigInt_toString_def dec_digits.simps digit_char_def)
qed

lemma unsigned_result_first:
  assumes "valid_config g" "timestamp_to_BigInt ts = Inr T" "EPOCH g \<le> T"
  shows "unsigned_result (getFirstIdAtTimestamp g ts) = Some (nat ((T - EPOCH g) * 2 ^ 22))"
  using assms
  by (simp add: unsigned_result_def getFirstIdAtTimestamp_ok compose_first as_unsigned_toString)

lemma unsigned_result_last:
  assumes "valid_config g" "timestamp_to_BigInt ts = Inr T" "EPOCH g \<le> T"
  shows "unsigned_result (getLastIdAtTimestamp g ts)
    = Some (nat ((T - EPOCH g) * 2 ^ 22 + (2 ^ 22 - 1)))"
  using assms
  by (simp add: unsigned_result_def getLastIdAtTimestamp_ok compose_max as_unsigned_toString)

text \<open>
  Claim C5: for an integer timestamp \<open>T\<close> at least one millisecond after the epoch, the
  strings returned for \<open>T - 1\<close>, \<open>T\<close> and \<open>T + 1\<close> denote unsigned integers with
  \<open>last(T - 1) < first(T) \<le> last(T) < first(T + 1)\<close>.
\<close>

theorem C5_boundary_order:
  assumes "valid_config g" and "EPOCH g + 1 \<le> T"
    and "timestamp_to_BigInt ts = Inr T"
    and "timestamp_to_BigInt ts_prev = Inr (T - 1)"
    and "timestamp_to_BigInt ts_next = Inr (T + 1)"
  shows "\<exists>first last last_prev first_next.
      unsigned_result (getFirstIdAtTimestamp g ts) = Some first
    \<and> unsigned_result (getLastIdAtTimestamp g ts) = Some last
    \<and> unsigned_result (getLastIdAtTimestamp g ts_prev) = Some last_prev
    \<and> unsigned_result (getFirstIdAtTimestamp g ts_next) = Some first_next
    \<and> first \<le> last \<and> last_prev < first \<and> last < first_next"
proof -
  define d where "d = T - EPOCH g"
  have d: "1 \<le> d" using assms(2) by (simp add: d_def)
  have "unsigned_result (getFirstIdAtTimestamp g ts) = Some (nat (d * 2 ^ 22))"
    using assms by (simp add: unsigned_result_first d_def)
  moreover have "unsigned_result (getLastIdAtTimestamp g ts) = Some (nat (d * 2 ^ 22 + (2 ^ 22 - 1)))"
    using assms by (simp add: unsigned_result_last d_def)
  moreover have "unsigned_result (getLastIdAtTimestamp g ts_prev)
      = Some (nat ((d - 1) * 2 ^ 22 + (2 ^ 22 - 1)))"
    using assms unsigned_result_last [of g ts_prev "T - 1"] by (simp add: d_def)
  moreover have "unsigned_result (getFirstIdAtTimestamp g ts_next) = Some (nat ((d + 1) * 2 ^ 22))"
    using assms unsigned_result_first [of g ts_next "T + 1"] by (simp add: d_def)
  moreover have "nat (d * 2 ^ 22) \<le> nat (d * 2 ^ 22 + (2 ^ 22 - 1))"
    by simp
  moreover have "nat ((d - 1) * 2 ^ 22 + (2 ^ 22 - 1)) < nat (d * 2 ^ 22)"
    using d by (simp add: algebra_simps)
  moreover have "nat (d * 2 ^ 22 + (2 ^ 22 - 1)) < nat ((d + 1) * 2 ^ 22)"
    using d by (simp add: algebra_simps)
  ultimately show ?thesis by blast
qed

theorem C5_boundary_order_witness:
  "\<exists>first last last_prev first_next.
      unsigned_result (getFirstIdAtTimestamp default_generator (JNumber (Num 1704067200001))) = Some first
    \<and> unsigned_result (getLastIdAtTimestamp default_generator (JNumber (Num 1704067200001))) = Some last
    \<and> unsigned_result (getLastIdAtTimestamp default_generator (JDate (Some 1704067200000))) = Some last_prev
    \<and> unsigned_result (getFirstIdAtTimestamp default_generator (JDate (Some 1704067200002))) = Some first_next
    \<and> first \<le> last \<and> last_prev < first \<and> last < first_next"
proof -
  have v: "valid_config default_generator"
    by (simp add: valid_config_def default_generator_def)
  have e: "EPOCH default_generator + 1 \<le> 1704067200001"
    by (simp add: default_generator_def)
  have t: "timestamp_to_BigInt (JNumber (Num 1704067200001)) = Inr 1704067200001"
    by simp
  have p: "timestamp_to_BigInt (JDate (Some 1704067200000)) = Inr (1704067200001 - 1)"
    by simp
  have n: "timestamp_to_BigInt (JDate (Some 1704067200002)) = Inr (1704067200001 + 1)"
    by simp
  show ?thesis
    by (rule C5_boundary_order [OF v e t p n])
qed

text \<open>
  Claim C2, amended: for a valid configuration and an integer timestamp \<open>T\<close> that is not
  before the epoch and that a Date can hold (\<open>\<bar>T\<bar> \<le> 8.64e15\<close>), decoding the first
  identifier at \<open>T\<close> gives the timestamp \<open>T\<close>, machine id 0 and sequence 0, and decoding
  the last identifier at \<open>T\<close> gives \<open>T\<close>, \<open>maxMachineId\<close> and \<open>maxSequence\<close>.
\<close>

theorem C2_roundtrip_in_Date_range:
  assumes "valid_config g" and "timestamp_to_BigInt ts = Inr T" and "EPOCH g \<le> T"
    and "TimeClip T = Some T"
  shows "\<exists>first last.
      fst (getFirstIdAtTimestamp g ts) = Inr first
    \<and> fst (parseId g first)
        = Inr \<lparr> parsed_timestamp = Some T, parsed_machineId = Some 0, parsed_sequence = Some 0 \<rparr>
    \<and> fst (getLastIdAtTimestamp g ts) = Inr last
    \<and> fst (parseId g last)
        = Inr \<lparr> parsed_timestamp = Some T, parsed_machineId = Some (maxMachineId g),
                parsed_sequence = Some (maxSequence g) \<rparr>"
proof -
  have mx: "0 \<le> maxMachineId g" "0 \<le> maxSequence g"
    using valid_config_bounds [OF assms(1)] by simp_all
  have "fst (getFirstIdAtTimestamp g ts) = Inr (BigInt_toString (compose g T 0 0))"
    using assms by (simp add: getFirstIdAtTimestamp_ok)
  moreover have "fst (parseId g (BigInt_toString (compose g T 0 0)))
      = Inr \<lparr> parsed_timestamp = Some T, parsed_machineId = Some 0, parsed_sequence = Some 0 \<rparr>"
    using assms mx by (simp add: parseId_compose)
  moreover have "fst (getLastIdAtTimestamp g ts)
      = Inr (BigInt_toString (compose g T (maxMachineId g) (maxSequence g)))"
    using assms by (simp add: getLastIdAtTimestamp_ok)
  moreover have "fst (parseId g (BigInt_toString (compose g T (maxMachineId g) (maxSequence g))))
      = Inr \<lparr> parsed_timestamp = Some T, parsed_machineId = Some (maxMachineId g),
              parsed_sequence = Some (maxSequence g) \<rparr>"
    using assms mx by (simp add: parseId_compose)
  ultimately show ?thesis by blast
qed

theorem C2_roundtrip_in_Date_range_witness:
  "\<exists>first last.
      fst (getFirstIdAtTimestamp default_generator (JNumber (Num 1704067200001))) = Inr first
    \<and> fst (parseId default_generator first)
        = Inr \<lparr> parsed_timestamp = Some 1704067200001, parsed_machineId = Some 0, parsed_sequence = Some 0 \<rparr>
    \<and> fst (getLastIdAtTimestamp default_generator (JNumber (Num 1704067200001))) = Inr last
    \<and> fst (parseId default_generator last)
        = Inr \<lparr> parsed_timestamp = Some 1704067200001, parsed_machineId = Some 1023,
                parsed_sequence = Some 4095 \<rparr>"
proof -
  have v: "valid_config default_generator"
    by (simp add: valid_config_def default_generator_def)
  have e: "EPOCH default_generator \<le> 1704067200001"
    by (simp add: default_generator_def)
  have t: "timestamp_to_BigInt (JNumber (Num 1704067200001)) = Inr 1704067200001"
    by simp
  have c: "TimeClip 1704067200001 = Some 1704067200001"
    by (simp add: TimeClip_def)
  have m: "maxMachineId default_generator = 1023" "maxSequence default_generator = 4095"
    by (simp_all add: default_generator_def)
  show ?thesis
    using C2_roundtrip_in_Date_range [OF v t e c] by (simp only: m)
qed

text \<open>
  Claim C2 as stated, for every \<open>T\<close> from the epoch on, fails beyond the range of Date:
  for the Number \<open>1e16\<close> the first identifier is returned, and \<^verbatim>\<open>parseId\<close> decodes it to
  an invalid Date instead of \<open>T\<close>.
\<close>

theorem C2_beyond_Date_range_counterexample:
  "fst (getFirstIdAtTimestamp default_generator (JNumber (Num 10000000000000000)))
     = Inr ''41935892624126771200000''
   \<and> fst (parseId default_generator ''41935892624126771200000'')
     = Inr \<lparr> parsed_timestamp = None, parsed_machineId = Some 0, parsed_sequence = Some 0 \<rparr>
   \<and> EPOCH default_generator \<le> 10000000000000000"
proof -
  have v: "valid_config default_generator"
    by (simp add: valid_config_def default_generator_def)
  have c: "compose default_generator 10000000000000000 0 0 = 41935892624126771200000"
    by (simp add: compose_first [OF v]) (simp add: default_generator_def)
  have s: "BigInt_toString 41935892624126771200000 = ''41935892624126771200000''"
    by (simp add: BigInt_toString_def dec_digits.simps digit_char_def)
  have "fst (getFirstIdAtTimestamp default_generator (JNumber (Num 10000000000000000)))
     = Inr ''41935892624126771200000''"
    by (simp add: getFirstIdAtTimestamp_ok default_generator_def [THEN arg_cong [where f = EPOCH]] c s)
  moreover have "fst (parseId default_generator ''41935892624126771200000'')
     = Inr \<lparr> parsed_timestamp = None, parsed_machineId = Some 0, parsed_sequence = Some 0 \<rparr>"
    using parseId_compose [OF v, of 0 0 10000000000000000]
    by (simp add: c s TimeClip_def) (simp add: default_generator_def)
  moreover have "EPOCH default_generator \<le> 10000000000000000"
    by (simp add: default_generator_def)
  ultimately show ?thesis by blast
qed

section \<open>Errors of the boundary methods\<close>

lemma ex_of_int_iff: "(\<exists>n. r = rat_of_int n) = (r \<in> \<int>)"
  by (auto simp: Ints_def)

lemma BigInt_of_number_Num:
  "BigInt_of_number (Num r) = (if r \<in> \<int> then Inr \<lfloor>r\<rfloor> else Inl BigIntRangeError)"
  by (simp add: ex_of_int_iff)

lemma timestamp_to_BigInt_cases:
  "timestamp_to_BigInt ts =
     (if \<not> is_number_or_date ts then Inl TimestampTypeError
      else if \<not> is_integral ts then Inl BigIntRangeError
      else timestamp_to_BigInt ts)"
  "is_integral ts \<Longrightarrow> \<exists>T. timestamp_to_BigInt ts = Inr T \<and> (before_epoch g ts \<longleftrightarrow> T < EPOCH g)"
proof -
  show "timestamp_to_BigInt ts =
     (if \<not> is_number_or_date ts then Inl TimestampTypeError
      else if \<not> is_integral ts then Inl BigIntRangeError
      else timestamp_to_BigInt ts)"
    by (cases ts rule: is_integral.cases) (simp_all add: is_number_or_date_def ex_of_int_iff)
  show "\<exists>T. timestamp_to_BigInt ts = Inr T \<and> (before_epoch g ts \<longleftrightarrow> T < EPOCH g)"
    if "is_integral ts"
  proof (cases ts rule: is_integral.cases)
    case (1 r)
    with that have r: "r \<in> \<int>" by (simp add: ex_of_int_iff)
    then have "of_int \<lfloor>r\<rfloor> = r" by (simp add: ex_of_int_iff)
    moreover from this have "(r < of_int (EPOCH g)) = (\<lfloor>r\<rfloor> < EPOCH g)"
      by (metis of_int_less_iff)
    ultimately show ?thesis using 1 r by (simp add: ex_of_int_iff)
  qed (use that in simp_all)
qed

lemma integral_is_number_or_date: "is_integral ts \<Longrightarrow> is_number_or_date ts"
  by (cases ts rule: is_integral.cases) (simp_all add: is_number_or_date_def)

lemma boundary_result:
  assumes "m = getFirstIdAtTimestamp \<or> m = getLastIdAtTimestamp"
  shows "fst (m g ts) =
     (if \<not> is_number_or_date ts then Inl TimestampTypeError
      else if \<not> is_integral ts then Inl BigIntRangeError
      else if before_epoch g ts then Inl TimestampBeforeEpoch
      else fst (m g ts))"
    and "is_integral ts \<Longrightarrow> \<not> before_epoch g ts \<Longrightarrow> \<exists>s. fst (m g ts) = Inr s"
    and "snd (m g ts) = g"
proof -
  show "snd (m g ts) = g"
    using assms
    by (auto simp: getFirstIdAtTimestamp_def getLastIdAtTimestamp_def split: sum.splits)
  show "fst (m g ts) =
     (if \<not> is_number_or_date ts then Inl TimestampTypeError
      else if \<not> is_integral ts then Inl BigIntRangeError
      else if before_epoch g ts then Inl TimestampBeforeEpoch
      else fst (m g ts))"
  proof (cases "is_integral ts")
    case True
    from timestamp_to_BigInt_cases(2) [OF True, of g] obtain T where
      "timestamp_to_BigInt ts = Inr T" "before_epoch g ts \<longleftrightarrow> T < EPOCH g"
      by blast
    with True assms integral_is_number_or_date [OF True] show ?thesis
      by (auto simp: getFirstIdAtTimestamp_def getLastIdAtTimestamp_def)
  next
    case False
    with assms timestamp_to_BigInt_cases(1) [of ts] show ?thesis
      by (auto simp: getFirstIdAtTimestamp_def getLastIdAtTimestamp_def split: if_splits)
  qed
  show "\<exists>s. fst (m g ts) = Inr s" if i: "is_integral ts" and b: "\<not> before_epoch g ts"
  proof -
    from timestamp_to_BigInt_cases(2) [OF i, of g] obtain T where
      "timestamp_to_BigInt ts = Inr T" "before_epoch g ts \<longleftrightarrow> T < EPOCH g"
      by blast
    with b assms show ?thesis
      by (auto simp: getFirstIdAtTimestamp_def getLastIdAtTimestamp_def)
  qed
qed

text \<open>
  Claim C6, amended: each of the two boundary methods throws an InvalidTimestampError
  exactly when its argument is neither a Number nor a Date, or is an integer Number or
  a valid Date strictly before the epoch; it throws the RangeError of \<^verbatim>\<open>BigInt\<close> exactly
  when the argument is a Number that is not an integer or an invalid Date; it returns
  exactly when the argument is an integer Number or a valid Date not before the epoch.
  The generator is the same after the call in every case.
\<close>

theorem C6_timestamp_errors:
  assumes "m = getFirstIdAtTimestamp \<or> m = getLastIdAtTimestamp"
  shows "((\<exists>e. fst (m g ts) = Inl e \<and> is_InvalidTimestampError e)
            \<longleftrightarrow> \<not> is_number_or_date ts \<or> (is_integral ts \<and> before_epoch g ts))
       \<and> (fst (m g ts) = Inl BigIntRangeError \<longleftrightarrow> is_number_or_date ts \<and> \<not> is_integral ts)
       \<and> ((\<exists>s. fst (m g ts) = Inr s) \<longleftrightarrow> is_integral ts \<and> \<not> before_epoch g ts)
       \<and> snd (m g ts) = g"
proof -
  have nd: "is_number_or_date ts" if "is_integral ts"
    using that by (rule integral_is_number_or_date)
  consider (other) "\<not> is_number_or_date ts"
    | (frac) "is_number_or_date ts" "\<not> is_integral ts"
    | (before) "is_integral ts" "before_epoch g ts"
    | (ok) "is_integral ts" "\<not> before_epoch g ts"
    by blast
  then have "((\<exists>e. fst (m g ts) = Inl e \<and> is_InvalidTimestampError e)
            \<longleftrightarrow> \<not> is_number_or_date ts \<or> (is_integral ts \<and> before_epoch g ts))
       \<and> (fst (m g ts) = Inl BigIntRangeError \<longleftrightarrow> is_number_or_date ts \<and> \<not> is_integral ts)
       \<and> ((\<exists>s. fst (m g ts) = Inr s) \<longleftrightarrow> is_integral ts \<and> \<not> before_epoch g ts)"
  proof cases
    case other
    then have "fst (m g ts) = Inl TimestampTypeError"
      using boundary_result(1) [OF assms, of g ts] by simp
    with other nd show ?thesis by (auto simp: is_InvalidTimestampError_def)
  next
    case frac
    then have "fst (m g ts) = Inl BigIntRangeError"
      using boundary_result(1) [OF assms, of g ts] by simp
    with frac show ?thesis by (auto simp: is_InvalidTimestampError_def)
  next
    case before
    then have "fst (m g ts) = Inl TimestampBeforeEpoch"
      using boundary_result(1) [OF assms, of g ts] nd by simp
    with before nd show ?thesis by (auto simp: is_InvalidTimestampError_def)
  next
    case ok
    then obtain s where "fst (m g ts) = Inr s"
      using boundary_result(2) [OF assms, of ts g] by blast
    with ok nd show ?thesis by auto
  qed
  with boundary_result(3) [OF assms] show ?thesis by blast
qed

theorem C6_timestamp_errors_witness:
  "(\<exists>e. fst (getFirstIdAtTimestamp default_generator (JDate (Some 1704067199999))) = Inl e
        \<and> is_InvalidTimestampError e)
   \<and> snd (getFirstIdAtTimestamp default_generator (JDate (Some 1704067199999))) = default_generator
   \<and> fst (getLastIdAtTimestamp default_generator (JNumber NaN)) = Inl BigIntRangeError
   \<and> (\<exists>s. fst (getLastIdAtTimestamp default_generator (JNumber (Num 1704067200000))) = Inr s)"
proof -
  have a: "is_integral (JDate (Some 1704067199999))"
    "before_epoch default_generator (JDate (Some 1704067199999))"
    by (simp_all add: default_generator_def)
  have b: "is_number_or_date (JNumber NaN)" "\<not> is_integral (JNumber NaN)"
    by (simp_all add: is_number_or_date_def)
  have c: "is_integral (JNumber (Num 1704067200000))"
    "\<not> before_epoch default_generator (JNumber (Num 1704067200000))"
    by (simp_all add: default_generator_def ex_of_int_iff)
  have f: "getFirstIdAtTimestamp = getFirstIdAtTimestamp \<or> getFirstIdAtTimestamp = getLastIdAtTimestamp"
    by simp
  have l: "getLastIdAtTimestamp = getFirstIdAtTimestamp \<or> getLastIdAtTimestamp = getLastIdAtTimestamp"
    by simp
  from C6_timestamp_errors [OF f, of default_generator "JDate (Some 1704067199999)"] a
  have 1: "(\<exists>e. fst (getFirstIdAtTimestamp default_generator (JDate (Some 1704067199999))) = Inl e
        \<and> is_InvalidTimestampError e)
      \<and> snd (getFirstIdAtTimestamp default_generator (JDate (Some 1704067199999))) = default_generator"
    by blast
  from C6_timestamp_errors [OF l, of default_generator "JNumber NaN"] b
  have 2: "fst (getLastIdAtTimestamp default_generator (JNumber NaN)) = Inl BigIntRangeError"
    by blast
  from C6_timestamp_errors [OF l, of default_generator "JNumber (Num 1704067200000)"] c
  have 3: "\<exists>s. fst (getLastIdAtTimestamp default_generator (JNumber (Num 1704067200000))) = Inr s"
    by blast
  from 1 2 3 show ?thesis by blast
qed

text \<open>
  Claim C6 as stated fails at Numbers that are not integers. Half a millisecond before
  the epoch the argument is a Number strictly before the epoch, and the error thrown is
  the RangeError of \<^verbatim>\<open>BigInt\<close>, not an InvalidTimestampError; half a millisecond after
  the epoch the argument is a Number not before the epoch, and the call fails all the
  same.
\<close>

theorem C6_fractional_timestamp_counterexample:
  "is_number_or_date (JNumber (Num (3408134399999 / 2)))
   \<and> before_epoch default_generator (JNumber (Num (3408134399999 / 2)))
   \<and> fst (getFirstIdAtTimestamp default_generator (JNumber (Num (3408134399999 / 2))))
       = Inl BigIntRangeError
   \<and> \<not> is_InvalidTimestampError BigIntRangeError
   \<and> is_number_or_date (JNumber (Num (3408134400001 / 2)))
   \<and> \<not> before_epoch default_generator (JNumber (Num (3408134400001 / 2)))
   \<and> fst (getFirstIdAtTimestamp default_generator (JNumber (Num (3408134400001 / 2))))
       = Inl BigIntRangeError"
  by (simp add: is_number_or_date_def is_InvalidTimestampError_def default_generator_def
      getFirstIdAtTimestamp_def BigInt_of_number_Num del: BigInt_of_number.simps)

section \<open>Errors of parseId\<close>

lemma digits_of_iff:
  "(\<exists>v. digits_of ok r ds = Inr v) \<longleftrightarrow> is_digits ok ds"
  "digits_of ok r ds = Inl e \<longleftrightarrow> e = BigIntSyntaxError \<and> \<not> is_digits ok ds"
  by (auto simp: digits_of_def is_digits_def)

lemma negate_iff:
  "(\<exists>v. negate x = Inr v) \<longleftrightarrow> (\<exists>v. x = Inr v)"
  "negate x = Inl e \<longleftrightarrow> x = Inl e"
  by (cases x; simp)+

lemma not_digit_chars:
  "\<not> is_dec_digit CHR ''b''" "\<not> is_dec_digit CHR ''B''" "\<not> is_dec_digit CHR ''o''"
  "\<not> is_dec_digit CHR ''O''" "\<not> is_dec_digit CHR ''x''" "\<not> is_dec_digit CHR ''X''"
  "\<not> is_dec_digit CHR ''+''" "\<not> is_dec_digit CHR ''-''"
  by (simp_all add: is_dec_digit_def)

lemma is_digits_Cons: "is_digits ok (c # cs) \<longleftrightarrow> ok c \<and> list_all ok cs"
  by (simp add: is_digits_def)

lemma StrIntegerLiteral_iff:
  assumes "t \<noteq> []"
  shows "(\<exists>v. StrIntegerLiteral t = Inr v) \<longleftrightarrow>
      (is_digits is_dec_digit t
      \<or> ((hd t = CHR ''+'' \<or> hd t = CHR ''-'') \<and> is_digits is_dec_digit (tl t))
      \<or> ((take 2 t = ''0b'' \<or> take 2 t = ''0B'') \<and> is_digits is_bin_digit (drop 2 t))
      \<or> ((take 2 t = ''0o'' \<or> take 2 t = ''0O'') \<and> is_digits is_oct_digit (drop 2 t))
      \<or> ((take 2 t = ''0x'' \<or> take 2 t = ''0X'') \<and> is_digits is_hex_digit (drop 2 t)))"
proof (cases t rule: StrIntegerLiteral.cases)
  case (1 c d ds)
  note facts = digits_of_iff negate_iff is_digits_Cons [of is_dec_digit] not_digit_chars
  consider (bin) "c = CHR ''0''" "d = CHR ''b'' \<or> d = CHR ''B''"
    | (oct) "c = CHR ''0''" "d = CHR ''o'' \<or> d = CHR ''O''"
    | (hex) "c = CHR ''0''" "d = CHR ''x'' \<or> d = CHR ''X''"
    | (plus) "c = CHR ''+''"
    | (minus) "c = CHR ''-''"
    | (other) "\<not> (c = CHR ''0'' \<and> (d = CHR ''b'' \<or> d = CHR ''B''))"
        "\<not> (c = CHR ''0'' \<and> (d = CHR ''o'' \<or> d = CHR ''O''))"
        "\<not> (c = CHR ''0'' \<and> (d = CHR ''x'' \<or> d = CHR ''X''))"
        "c \<noteq> CHR ''+''" "c \<noteq> CHR ''-''"
    by blast
  then show ?thesis
  proof cases
    case bin
    then show ?thesis unfolding 1 by (elim disjE; simp add: facts)
  next
    case oct
    then show ?thesis unfolding 1 by (elim disjE; simp add: facts)
  next
    case hex
    then show ?thesis unfolding 1 by (elim disjE; simp add: facts)
  next
    case plus
    then show ?thesis unfolding 1 by (simp add: facts)
  next
    case minus
    then show ?thesis unfolding 1 by (simp add: facts)
  next
    case other
    from other have lit: "StrIntegerLiteral (c # d # ds) = digits_of is_dec_digit 10 (c # d # ds)"
      by auto
    from other(4,5) have sign: "\<not> (hd (c # d # ds) = CHR ''+'' \<or> hd (c # d # ds) = CHR ''-'')"
      by simp
    from other(1) have bin: "\<not> (take 2 (c # d # ds) = ''0b'' \<or> take 2 (c # d # ds) = ''0B'')"
      by auto
    from other(2) have oct: "\<not> (take 2 (c # d # ds) = ''0o'' \<or> take 2 (c # d # ds) = ''0O'')"
      by auto
    from other(3) have hex: "\<not> (take 2 (c # d # ds) = ''0x'' \<or> take 2 (c # d # ds) = ''0X'')"
      by auto
    show ?thesis
      unfolding 1 lit digits_of_iff using sign bin oct hex by blast
  qed
next
  case 3
  with assms show ?thesis by simp
next
  case (2 c)
  then show ?thesis
    using not_digit_chars
    by (auto simp: digits_of_iff is_digits_def)
qed

lemma StrIntegerLiteral_error:
  assumes "StrIntegerLiteral t = Inl e"
  shows "e = BigIntSyntaxError"
proof (cases t rule: StrIntegerLiteral.cases)
  case (1 c d ds)
  with assms show ?thesis
    by (auto simp: digits_of_iff negate_iff split: if_splits)
next
  case 3
  with assms show ?thesis by (simp add: digits_of_iff)
next
  case (2 c)
  with assms show ?thesis by (simp add: digits_of_iff)
qed

lemma BigInt_of_string_iff:
  "(\<exists>v. BigInt_of_string s = Inr v) \<longleftrightarrow> BigInt_literal s"
  "BigInt_of_string s = Inl e \<longleftrightarrow> e = BigIntSyntaxError \<and> \<not> BigInt_literal s"
proof -
  show ok: "(\<exists>v. BigInt_of_string s = Inr v) \<longleftrightarrow> BigInt_literal s"
  proof (cases "trim s = []")
    case True
    then show ?thesis by (simp add: BigInt_of_string_def BigInt_literal_def)
  next
    case False
    then show ?thesis
      using StrIntegerLiteral_iff [OF False]
      by (simp add: BigInt_of_string_def BigInt_literal_def Let_def)
  qed
  have err: "e' = BigIntSyntaxError" if "BigInt_of_string s = Inl e'" for e'
    using that StrIntegerLiteral_error [of "trim s" e']
    by (simp add: BigInt_of_string_def Let_def split: if_splits)
  have rej: "BigInt_of_string s = Inl BigIntSyntaxError" if "\<not> BigInt_literal s"
  proof (cases "BigInt_of_string s")
    case (Inl e')
    with err [of e'] show ?thesis by simp
  next
    case (Inr v)
    with ok that show ?thesis by blast
  qed
  show "BigInt_of_string s = Inl e \<longleftrightarrow> e = BigIntSyntaxError \<and> \<not> BigInt_literal s"
  proof
    assume a: "BigInt_of_string s = Inl e"
    then have "\<not> (\<exists>v. BigInt_of_string s = Inr v)" by simp
    with a err [of e] ok show "e = BigIntSyntaxError \<and> \<not> BigInt_literal s" by blast
  next
    assume "e = BigIntSyntaxError \<and> \<not> BigInt_literal s"
    with rej show "BigInt_of_string s = Inl e" by simp
  qed
qed

lemma parseId_result:
  "(\<exists>p. fst (parseId g s) = Inr p) \<longleftrightarrow> BigInt_literal s"
  "fst (parseId g s) = Inl e \<longleftrightarrow> e = BigIntSyntaxError \<and> \<not> BigInt_literal s"
proof -
  have "(\<exists>p. fst (parseId g s) = Inr p) \<longleftrightarrow> (\<exists>v. BigInt_of_string s = Inr v)"
    by (cases "BigInt_of_string s") (simp_all add: parseId_def Let_def)
  then show "(\<exists>p. fst (parseId g s) = Inr p) \<longleftrightarrow> BigInt_literal s"
    by (simp add: BigInt_of_string_iff)
  have "fst (parseId g s) = Inl e \<longleftrightarrow> BigInt_of_string s = Inl e"
    by (cases "BigInt_of_string s") (simp_all add: parseId_def Let_def)
  then show "fst (parseId g s) = Inl e \<longleftrightarrow> e = BigIntSyntaxError \<and> \<not> BigInt_literal s"
    by (simp add: BigInt_of_string_iff)
qed

lemma CustomSnowflakeId_parseId_result:
  "(\<exists>p. fst (CustomSnowflakeId_parseId c s) = Inr p) \<longleftrightarrow> (\<exists>p. fst (parseId (snowflake c) s) = Inr p)"
  "fst (CustomSnowflakeId_parseId c s) = Inl e \<longleftrightarrow>
     e = InvalidNumericString \<and> (\<exists>e'. fst (parseId (snowflake c) s) = Inl e')"
  by (cases "parseId (snowflake c) s"; cases "fst (parseId (snowflake c) s)";
      auto simp: CustomSnowflakeId_parseId_def)+

lemma nonneg_integer_string_literal:
  assumes "is_nonneg_integer_string s"
  shows "BigInt_literal s"
proof -
  from assms have d: "is_digits is_dec_digit s"
    by (simp add: is_nonneg_integer_string_def)
  then have "trim s = s" by (rule trim_digits)
  with d show ?thesis by (simp add: BigInt_literal_def)
qed

lemma not_a_number_rejected: "\<not> BigInt_literal ''not-a-number''"
  by (simp add: BigInt_literal_def trim_def is_ws_def is_digits_def is_dec_digit_def)

text \<open>
  Claim C7, amended: \<^verbatim>\<open>parseId\<close>, of the generator and of the wrapper, throws an
  InvalidIdError exactly when \<^verbatim>\<open>BigInt\<close> rejects the string, that is, unless the string
  without its surrounding white space is empty, a decimal digit string with an optional
  sign, or a binary, octal or hexadecimal literal; otherwise it returns. Every
  non-negative decimal integer string is accepted, and \<open>not-a-number\<close> is rejected.
\<close>

theorem C7_parseId_errors:
  "((\<exists>e. fst (parseId g s) = Inl e \<and> is_InvalidIdError e) \<longleftrightarrow> \<not> BigInt_literal s)
   \<and> ((\<exists>p. fst (parseId g s) = Inr p) \<longleftrightarrow> BigInt_literal s)
   \<and> ((\<exists>e. fst (CustomSnowflakeId_parseId c s) = Inl e \<and> is_InvalidIdError e) \<longleftrightarrow> \<not> BigInt_literal s)
   \<and> ((\<exists>p. fst (CustomSnowflakeId_parseId c s) = Inr p) \<longleftrightarrow> BigInt_literal s)
   \<and> (is_nonneg_integer_string s \<longrightarrow> BigInt_literal s)
   \<and> \<not> BigInt_literal ''not-a-number''"
proof -
  have "(\<exists>e. fst (parseId g s) = Inl e \<and> is_InvalidIdError e) \<longleftrightarrow> \<not> BigInt_literal s"
    by (auto simp: parseId_result is_InvalidIdError_def)
  moreover have "(\<exists>e. fst (CustomSnowflakeId_parseId c s) = Inl e \<and> is_InvalidIdError e)
      \<longleftrightarrow> \<not> BigInt_literal s"
    by (auto simp: CustomSnowflakeId_parseId_result parseId_result is_InvalidIdError_def)
  moreover have "(\<exists>p. fst (CustomSnowflakeId_parseId c s) = Inr p) \<longleftrightarrow> BigInt_literal s"
    by (simp add: CustomSnowflakeId_parseId_result parseId_result)
  ultimately show ?thesis
    using parseId_result(1) [of g s] nonneg_integer_string_literal [of s] not_a_number_rejected
    by blast
qed

theorem C7_parseId_errors_witness:
  "(\<exists>p. fst (parseId default_generator ''4194304'') = Inr p)
   \<and> (\<exists>e. fst (parseId default_generator ''not-a-number'') = Inl e \<and> is_InvalidIdError e)
   \<and> (\<exists>e. fst (CustomSnowflakeId_parseId \<lparr>snowflake = default_generator\<rparr> ''not-a-number'') = Inl e
         \<and> is_InvalidIdError e)"
proof -
  have d: "is_nonneg_integer_string ''4194304''"
    by (simp add: is_nonneg_integer_string_def is_digits_def is_dec_digit_def)
  from C7_parseId_errors [of default_generator "''4194304''" "\<lparr>snowflake = default_generator\<rparr>"] d
  have 1: "\<exists>p. fst (parseId default_generator ''4194304'') = Inr p"
    by blast
  from C7_parseId_errors [of default_generator "''not-a-number''" "\<lparr>snowflake = default_generator\<rparr>"]
  have 2: "(\<exists>e. fst (parseId default_generator ''not-a-number'') = Inl e \<and> is_InvalidIdError e)
      \<and> (\<exists>e. fst (CustomSnowflakeId_parseId \<lparr>snowflake = default_generator\<rparr> ''not-a-number'') = Inl e
         \<and> is_InvalidIdError e)"
    by blast
  from 1 2 show ?thesis by blast
qed

text \<open>
  Claim C7 as stated fails at \<open>-5\<close>, which is not a non-negative integer string:
  \<^verbatim>\<open>BigInt('-5')\<close> is \<open>-5n\<close>, and both \<^verbatim>\<open>parseId\<close> methods return an object.
\<close>

lemma BigInt_of_string_minus5: "BigInt_of_string ''-5'' = Inr (- 5)"
  by (simp add: BigInt_of_string_def trim_def is_ws_def digits_of_def is_dec_digit_def
      radix_value_def digit_val_def)

theorem C7_negative_string_counterexample:
  "\<not> is_nonneg_integer_string ''-5''
   \<and> fst (parseId default_generator ''-5'')
       = Inr \<lparr> parsed_timestamp = Some 1704067199999, parsed_machineId = Some 1023,
               parsed_sequence = Some 4091 \<rparr>
   \<and> fst (CustomSnowflakeId_parseId \<lparr>snowflake = default_generator\<rparr> ''-5'')
       = Inr \<lparr> parsed_timestamp = Some 1704067199999, parsed_machineId = Some 1023,
               parsed_sequence = Some 4091 \<rparr>"
proof -
  have m: "(4095::int) = 2 ^ 12 - 1" "(1023::int) = 2 ^ 10 - 1" by simp_all
  have "(- 5::int) AND 4095 = 4091"
    unfolding m and_mask_mod by simp
  moreover have "shr (- 5) 12 AND 1023 = 1023"
    unfolding m and_mask_mod by (simp add: shr_def drop_bit_eq_div)
  moreover have "shr (- 5) 22 = - 1"
    by (simp add: shr_def drop_bit_eq_div)
  ultimately have p: "parseId default_generator ''-5''
       = (Inr \<lparr> parsed_timestamp = Some 1704067199999, parsed_machineId = Some 1023,
               parsed_sequence = Some 4091 \<rparr>, default_generator)"
    by (simp add: parseId_def BigInt_of_string_minus5 default_generator_def
        Number_of_BigInt_def TimeClip_def)
  then have "fst (CustomSnowflakeId_parseId \<lparr>snowflake = default_generator\<rparr> ''-5'')
       = Inr \<lparr> parsed_timestamp = Some 1704067199999, parsed_machineId = Some 1023,
               parsed_sequence = Some 4091 \<rparr>"
    by (simp add: CustomSnowflakeId_parseId_def)
  moreover have "\<not> is_nonneg_integer_string ''-5''"
    by (simp add: is_nonneg_integer_string_def is_digits_def is_dec_digit_def)
  ultimately show ?thesis using p by simp
qed

section \<open>Identifiers issued by nextId\<close>

lemma and_maxSequence_range:
  assumes "valid_config g"
  shows "0 \<le> x AND maxSequence g" "x AND maxSequence g \<le> maxSequence g"
  using valid_config_bounds(2) [OF assms] by simp_all

lemma nextId_inv:
  assumes "gen_inv g" and "nextId g clock = Some (uid, g', clock')"
  shows "gen_inv g'"
  using assms(2)
proof (rule nextId_result)
  fix t s
  assume g': "g' = g\<lparr>sequence := s, lastTimestamp := BigIntVal t\<rparr>"
    and t: "ts_num (lastTimestamp g) \<le> t"
    and s: "lastTimestamp g = BigIntVal t \<and> s = (sequence g + 1) AND maxSequence g \<and> s \<noteq> 0
        \<or> s = 0 \<and> lastTimestamp g \<noteq> BigIntVal t"
  have v: "valid_config g" using assms(1) by (simp add: gen_inv_def)
  from s have "0 \<le> s \<and> s \<le> maxSequence g"
    using and_maxSequence_range [OF v] valid_config_bounds(2) [OF v] by auto
  moreover have "valid_config g'"
    using v g' by (simp add: valid_config_def)
  ultimately show "gen_inv g'"
    using assms(1) t g' by (simp add: gen_inv_def)
qed

text \<open>
  Claim C3: for a generator in a state that satisfies the invariant (as every generator
  is from its construction on, whatever the clock reads) and whose machine id lies in
  \<open>[0, maxMachineId]\<close>, the string returned by \<^verbatim>\<open>nextId\<close> is decoded by \<^verbatim>\<open>parseId\<close> to
  the configured machine id and to a sequence in \<open>[0, maxSequence]\<close>, the sequence of the
  generator after the call; the decoded timestamp is the adopted reading of the clock,
  which is not before the epoch.
\<close>

theorem C3_decode_generated:
  assumes "gen_inv g" and "machineId_in_range g"
    and "nextId g clock = Some (uid, g', clock')"
  shows "\<exists>t s. fst (parseId g' uid) = Inr \<lparr> parsed_timestamp = TimeClip t,
                   parsed_machineId = Some (machineId g), parsed_sequence = Some s \<rparr>
               \<and> 0 \<le> s \<and> s \<le> maxSequence g \<and> s = sequence g' \<and> EPOCH g \<le> t"
  using assms(3)
proof (rule nextId_result)
  fix t s
  assume g': "g' = g\<lparr>sequence := s, lastTimestamp := BigIntVal t\<rparr>"
    and uid: "uid = BigInt_toString (compose g t (machineId g) s)"
    and t: "ts_num (lastTimestamp g) \<le> t"
  have v: "valid_config g" using assms(1) by (simp add: gen_inv_def)
  have "gen_inv g'" using assms(1,3) by (rule nextId_inv)
  then have s: "0 \<le> s" "s \<le> maxSequence g"
    using g' by (simp_all add: gen_inv_def)
  have m: "0 \<le> machineId g" "machineId g \<le> maxMachineId g"
    using assms(2) by (simp_all add: machineId_in_range_def)
  have "parseId g uid = (Inr \<lparr> parsed_timestamp = TimeClip t,
      parsed_machineId = Some (machineId g), parsed_sequence = Some s \<rparr>, g)"
    unfolding uid using v m s by (rule parseId_compose)
  moreover have "fst (parseId g' uid) = fst (parseId g uid)"
    by (simp add: parseId_def g' Let_def split: sum.splits)
  moreover have "EPOCH g \<le> t"
    using assms(1) t by (simp add: gen_inv_def)
  ultimately show ?thesis
    using s g' by auto
qed

theorem C3_decode_generated_witness:
  "\<exists>t s. fst (parseId (default_generator\<lparr>machineId := 5, sequence := 0,
                    lastTimestamp := BigIntVal 1704067200000\<rparr>) ''20480'')
            = Inr \<lparr> parsed_timestamp = TimeClip t, parsed_machineId = Some 5,
                    parsed_sequence = Some s \<rparr>
         \<and> 0 \<le> s \<and> s \<le> 4095"
proof -
  let ?g = "default_generator\<lparr>machineId := 5\<rparr>"
  have inv: "gen_inv ?g"
    by (simp add: gen_inv_def valid_config_def default_generator_def)
  have rng: "machineId_in_range ?g"
    by (simp add: machineId_in_range_def default_generator_def)
  have run: "nextId ?g [1704067200000]
      = Some (''20480'', default_generator\<lparr>machineId := 5, sequence := 0,
                lastTimestamp := BigIntVal 1704067200000\<rparr>, [])"
    by (simp add: nextId_def default_generator_def compose_def shl_def BigInt_toString_def
        dec_digits.simps digit_char_def)
  from C3_decode_generated [OF inv rng run] show ?thesis
    by (auto simp: default_generator_def)
qed

subsection \<open>Termination of a call\<close>

text \<open>
  A call of \<^verbatim>\<open>nextId\<close> returns as soon as the clock shows a reading after the last
  timestamp.
\<close>

lemma spin_split:
  assumes "spin again clock = Some (t, rest)"
  shows "\<exists>pre. clock = pre @ t # rest \<and> (\<forall>x\<in>set pre. again x) \<and> \<not> again t"
  using assms
proof (induction clock)
  case Nil
  then show ?case by simp
next
  case (Cons x clock)
  show ?case
  proof (cases "again x")
    case True
    with Cons.prems have "spin again clock = Some (t, rest)" by simp
    from Cons.IH [OF this] obtain pre where
      "clock = pre @ t # rest" "\<forall>y\<in>set pre. again y" "\<not> again t"
      by blast
    with True have "x # clock = (x # pre) @ t # rest \<and> (\<forall>y\<in>set (x # pre). again y) \<and> \<not> again t"
      by simp
    then show ?thesis by blast
  next
    case False
    with Cons.prems have "x # clock = [] @ t # rest \<and> (\<forall>y\<in>set []. again y) \<and> \<not> again t"
      by simp
    then show ?thesis by blast
  qed
qed

lemma spin_returns:
  assumes "\<exists>t\<in>set clock. \<not> again t"
  shows "\<exists>t rest. spin again clock = Some (t, rest)"
  using assms by (induction clock) auto

lemma nextId_returns:
  assumes "\<exists>t\<in>set clock. ts_num (lastTimestamp g) < t"
  shows "\<exists>uid g' clock'. nextId g clock = Some (uid, g', clock')"
proof -
  from assms obtain t where t: "t \<in> set clock" "ts_num (lastTimestamp g) < t"
    by blast
  then have "\<not> t < ts_num (lastTimestamp g)" by simp
  with t(1) have "\<exists>x\<in>set clock. \<not> x < ts_num (lastTimestamp g)"
    by (rule rev_bexI)
  from spin_returns [OF this] obtain t1 c1 where
    sp: "spin (\<lambda>timestamp. timestamp < ts_num (lastTimestamp g)) clock = Some (t1, c1)"
    by blast
  show ?thesis
  proof (cases "lastTimestamp g = BigIntVal t1 \<and> (sequence g + 1) AND maxSequence g = 0")
    case False
    with sp show ?thesis
      by (auto simp: nextId_def Let_def)
  next
    case True
    from spin_split [OF sp] obtain pre where
      pre: "clock = pre @ t1 # c1" "\<forall>x\<in>set pre. x < ts_num (lastTimestamp g)"
      by blast
    from True t(2) have "t1 < t" by simp
    with t pre have "t \<in> set c1" by auto
    moreover from \<open>t1 < t\<close> have "\<not> t \<le> t1" by simp
    ultimately have "\<exists>x\<in>set c1. \<not> x \<le> t1" by (rule rev_bexI)
    from spin_returns [OF this] obtain t2 c2 where
      "spin (\<lambda>timestamp. timestamp \<le> t1) c1 = Some (t2, c2)"
      by blast
    with sp True show ?thesis
      by (simp add: nextId_def Let_def waitNextMillis_def)
  qed
qed

subsection \<open>Successive identifiers\<close>

lemma last_id_arith:
  assumes "gen_inv g" "machineId_in_range g"
  shows "last_id g = (ts_num (lastTimestamp g) - EPOCH g) * 2 ^ 22
      + machineId g * 2 ^ nat (sequenceBits g) + sequence g"
    and "0 \<le> machineId g * 2 ^ nat (sequenceBits g) + sequence g"
    and "machineId g * 2 ^ nat (sequenceBits g) + sequence g < 2 ^ 22"
    and "sequence g < 2 ^ nat (sequenceBits g)"
    and "(2::int) ^ nat (sequenceBits g) \<le> 2 ^ 22"
proof -
  have v: "valid_config g" and s: "0 \<le> sequence g" "sequence g \<le> maxSequence g"
    using assms(1) by (simp_all add: gen_inv_def)
  have m: "0 \<le> machineId g" "machineId g \<le> maxMachineId g"
    using assms(2) by (simp_all add: machineId_in_range_def)
  define W :: int where "W = 2 ^ nat (machineIdBits g)"
  define K :: int where "K = 2 ^ nat (sequenceBits g)"
  have WK: "W * K = 2 ^ 22"
    using valid_config_bounds(5) [OF v] by (simp add: W_def K_def)
  have mx: "maxMachineId g = W - 1" "maxSequence g = K - 1"
    using v by (simp_all add: valid_config_def W_def K_def)
  have "last_id g = (ts_num (lastTimestamp g) - EPOCH g) * (W * K) + machineId g * K + sequence g"
    unfolding last_id_def W_def K_def using v m s by (rule compose_arith)
  then have "last_id g = (ts_num (lastTimestamp g) - EPOCH g) * 2 ^ 22 + machineId g * K + sequence g"
    by (simp only: WK)
  then show "last_id g = (ts_num (lastTimestamp g) - EPOCH g) * 2 ^ 22
      + machineId g * 2 ^ nat (sequenceBits g) + sequence g"
    by (simp only: K_def)
  have "0 \<le> machineId g * K + sequence g \<and> machineId g * K + sequence g < W * K"
    using m s mx by (intro low_bound) simp_all
  then have "0 \<le> machineId g * K + sequence g \<and> machineId g * K + sequence g < 2 ^ 22"
    by (simp only: WK)
  then show "0 \<le> machineId g * 2 ^ nat (sequenceBits g) + sequence g"
    and "machineId g * 2 ^ nat (sequenceBits g) + sequence g < 2 ^ 22"
    by (simp_all only: K_def)
  show "sequence g < 2 ^ nat (sequenceBits g)"
    using s mx by (simp add: K_def)
  have "1 \<le> W" unfolding W_def by (rule one_le_power) simp
  moreover have "0 \<le> K" unfolding K_def by simp
  ultimately have "1 * K \<le> W * K" by (intro mult_right_mono)
  then have "K \<le> 2 ^ 22" by (simp only: WK mult_1)
  then show "(2::int) ^ nat (sequenceBits g) \<le> 2 ^ 22"
    by (simp only: K_def)
qed

lemma nextId_step:
  assumes "gen_inv g" "machineId_in_range g" "nextId g clock = Some (uid, g', clock')"
  shows "uid = BigInt_toString (last_id g')"
    and "issued (lastTimestamp g')"
    and "issued (lastTimestamp g) \<Longrightarrow> last_id g < last_id g'"
    and "ts_num (lastTimestamp g') \<in> set clock"
    and "set clock' \<subseteq> set clock"
    and "machineId_in_range g'"
    and "EPOCH g' = EPOCH g"
proof -
  have inv': "gen_inv g'" using assms(1,3) by (rule nextId_inv)
  from assms(3) obtain t s where
    g': "g' = g\<lparr>sequence := s, lastTimestamp := BigIntVal t\<rparr>"
    and uid: "uid = BigInt_toString (compose g t (machineId g) s)"
    and tc: "t \<in> set clock" and cc: "set clock' \<subseteq> set clock"
    and le: "ts_num (lastTimestamp g) \<le> t"
    and s: "lastTimestamp g = BigIntVal t \<and> s = (sequence g + 1) AND maxSequence g \<and> s \<noteq> 0
        \<or> s = 0 \<and> lastTimestamp g \<noteq> BigIntVal t"
    by (rule nextId_result)
  show "uid = BigInt_toString (last_id g')"
    by (simp add: uid g' last_id_def compose_def)
  show "issued (lastTimestamp g')" by (simp add: g')
  show "ts_num (lastTimestamp g') \<in> set clock" using tc by (simp add: g')
  show "set clock' \<subseteq> set clock" by (rule cc)
  show rng': "machineId_in_range g'"
    using assms(2) by (simp add: g' machineId_in_range_def)
  show "EPOCH g' = EPOCH g" by (simp add: g')
  show "last_id g < last_id g'" if iss: "issued (lastTimestamp g)"
  proof -
    define K :: int where "K = 2 ^ nat (sequenceBits g)"
    define E where "E = EPOCH g"
    define mid where "mid = machineId g"
    from iss obtain t0 where t0: "lastTimestamp g = BigIntVal t0"
      by (cases "lastTimestamp g") simp_all
    have a: "last_id g = (t0 - E) * 2 ^ 22 + mid * K + sequence g"
      and seqK: "sequence g < K" and K22: "K \<le> 2 ^ 22"
      using last_id_arith [OF assms(1,2)] by (simp_all add: t0 K_def E_def mid_def)
    have b: "last_id g' = (t - E) * 2 ^ 22 + mid * K + s"
      using last_id_arith(1) [OF inv' rng'] by (simp add: g' K_def E_def mid_def)
    have inv: "0 \<le> sequence g" "maxSequence g = K - 1"
      using assms(1) by (simp_all add: gen_inv_def valid_config_def K_def)
    from s show ?thesis
    proof
      assume same: "lastTimestamp g = BigIntVal t \<and> s = (sequence g + 1) AND maxSequence g \<and> s \<noteq> 0"
      then have tt: "t0 = t" using t0 by simp
      have smod: "s = (sequence g + 1) mod K"
        using same inv by (simp add: K_def and_mask_mod)
      have "sequence g + 1 < K"
      proof (rule ccontr)
        assume "\<not> sequence g + 1 < K"
        with seqK have "sequence g + 1 = K" by simp
        with smod have "s = 0" by simp
        with same show False by simp
      qed
      with inv smod have "s = sequence g + 1" by simp
      with a b tt show ?thesis by simp
    next
      assume reset: "s = 0 \<and> lastTimestamp g \<noteq> BigIntVal t"
      with t0 le have "t0 < t" by simp
      then have "t0 - E + 1 \<le> t - E" by simp
      then have "(t0 - E + 1) * 2 ^ 22 \<le> (t - E) * (2 ^ 22 :: int)"
        by (intro mult_right_mono) simp_all
      then have "(t0 - E) * 2 ^ 22 + 2 ^ 22 \<le> (t - E) * (2 ^ 22 :: int)"
        by (simp add: algebra_simps)
      with a b reset seqK K22 show ?thesis by simp
    qed
  qed
qed

lemma last_id_bounds:
  assumes "gen_inv g" "machineId_in_range g"
  shows "(ts_num (lastTimestamp g) - EPOCH g) * 2 ^ 22 \<le> last_id g"
    and "last_id g < (ts_num (lastTimestamp g) - EPOCH g + 1) * 2 ^ 22"
  using last_id_arith(1,2,3) [OF assms] by (simp_all add: algebra_simps)

lemma nextIds_increasing:
  assumes "gen_inv g" "machineId_in_range g" "nextIds n g clock = Some (uids, g', clock')"
  shows "\<exists>vals. uids = map BigInt_toString vals \<and> length vals = n \<and> sorted_wrt (<) vals
      \<and> (\<forall>v\<in>set vals. (issued (lastTimestamp g) \<longrightarrow> last_id g < v)
            \<and> (\<exists>t\<in>set clock. EPOCH g \<le> t
                  \<and> (t - EPOCH g) * 2 ^ 22 \<le> v \<and> v < (t - EPOCH g + 1) * 2 ^ 22))"
  using assms
proof (induction n arbitrary: g clock uids)
  case 0
  then show ?case by simp
next
  case (Suc n)
  from Suc.prems(3) obtain uid g1 clock1 uids1 where
    first: "nextId g clock = Some (uid, g1, clock1)"
    and rest: "nextIds n g1 clock1 = Some (uids1, g', clock')"
    and uids: "uids = uid # uids1"
    by (auto split: option.splits)
  note step = nextId_step [OF Suc.prems(1,2) first]
  have inv1: "gen_inv g1" using Suc.prems(1) first by (rule nextId_inv)
  from Suc.IH [OF inv1 step(6) rest] obtain vals1 where
    v1: "uids1 = map BigInt_toString vals1" "length vals1 = n" "sorted_wrt (<) vals1"
    and above: "\<And>v. v \<in> set vals1 \<Longrightarrow> last_id g1 < v"
    and within: "\<And>v. v \<in> set vals1 \<Longrightarrow> \<exists>t\<in>set clock1. EPOCH g1 \<le> t
        \<and> (t - EPOCH g1) * 2 ^ 22 \<le> v \<and> v < (t - EPOCH g1 + 1) * 2 ^ 22"
    using step(2) by blast
  let ?vals = "last_id g1 # vals1"
  have "uids = map BigInt_toString ?vals"
    using uids v1(1) step(1) by simp
  moreover have "length ?vals = Suc n"
    using v1(2) by simp
  moreover have "sorted_wrt (<) ?vals"
    using v1(3) above by simp
  moreover have "issued (lastTimestamp g) \<longrightarrow> last_id g < v" if "v \<in> set ?vals" for v
  proof
    assume "issued (lastTimestamp g)"
    then have "last_id g < last_id g1" by (rule step(3))
    with that above show "last_id g < v" by (auto intro: less_trans)
  qed
  moreover have "\<exists>t\<in>set clock. EPOCH g \<le> t
      \<and> (t - EPOCH g) * 2 ^ 22 \<le> v \<and> v < (t - EPOCH g + 1) * 2 ^ 22"
    if "v \<in> set ?vals" for v
  proof (cases "v = last_id g1")
    case True
    have "EPOCH g \<le> ts_num (lastTimestamp g1)"
      using inv1 step(7) by (simp add: gen_inv_def)
    then show ?thesis
      using True step(4) step(7) last_id_bounds [OF inv1 step(6)] by auto
  next
    case False
    with that have "v \<in> set vals1" by simp
    from within [OF this] step(5) step(7) show ?thesis by auto
  qed
  ultimately show ?case by blast
qed

lemma as_uint64_toString:
  assumes "0 \<le> v" "v < 2 ^ 64"
  shows "as_uint64 (BigInt_toString v) = Some (nat v)"
proof -
  have "nat v < 2 ^ 64" using assms by (simp add: nat_less_iff)
  then show ?thesis using assms by (simp add: as_uint64_def as_unsigned_toString)
qed

text \<open>
  Claim C1, amended: for a generator that satisfies the invariant and whose machine id
  lies in \<open>[0, maxMachineId]\<close>, and for readings of the clock that are non-decreasing, not
  before the epoch and less than \<open>2^42\<close> milliseconds after it, the strings returned by
  \<open>n\<close> successive calls of \<^verbatim>\<open>nextId\<close> are unsigned 64-bit integers and are strictly
  increasing.
\<close>

theorem C1_strictly_increasing:
  assumes "gen_inv g" and "machineId_in_range g"
    and "sorted clock"
    and "\<forall>t\<in>set clock. EPOCH g \<le> t \<and> t < EPOCH g + 2 ^ 42"
    and "nextIds n g clock = Some (uids, g', clock')"
  shows "\<exists>vals. map as_uint64 uids = map Some vals \<and> length vals = n \<and> sorted_wrt (<) vals"
proof -
  from nextIds_increasing [OF assms(1,2,5)] obtain ivals where
    u: "uids = map BigInt_toString ivals" and len: "length ivals = n"
    and sorted: "sorted_wrt (<) ivals"
    and within: "\<And>v. v \<in> set ivals \<Longrightarrow> \<exists>t\<in>set clock. EPOCH g \<le> t
        \<and> (t - EPOCH g) * 2 ^ 22 \<le> v \<and> v < (t - EPOCH g + 1) * 2 ^ 22"
    by blast
  have range: "0 \<le> v \<and> v < 2 ^ 64" if "v \<in> set ivals" for v
  proof -
    from within [OF that] obtain t where t: "t \<in> set clock" "EPOCH g \<le> t"
      "(t - EPOCH g) * 2 ^ 22 \<le> v" "v < (t - EPOCH g + 1) * 2 ^ 22"
      by blast
    from t(1) assms(4) have "t - EPOCH g + 1 \<le> 2 ^ 42" by auto
    then have "(t - EPOCH g + 1) * 2 ^ 22 \<le> 2 ^ 42 * (2 ^ 22 :: int)"
      by (intro mult_right_mono) simp_all
    moreover have "0 \<le> (t - EPOCH g) * 2 ^ 22" using t(2) by simp
    ultimately show ?thesis using t(3,4) by simp
  qed
  have "map as_uint64 uids = map Some (map nat ivals)"
    unfolding u using range by (simp add: as_uint64_toString)
  moreover have "length (map nat ivals) = n"
    using len by simp
  moreover have "sorted_wrt (<) (map nat ivals)"
    unfolding sorted_wrt_map
  proof (rule sorted_wrt_mono_rel [OF _ sorted])
    fix x y
    assume "x \<in> set ivals" "y \<in> set ivals" "x < y"
    moreover from this range [of x] have "0 \<le> x" by simp
    ultimately show "nat x < nat y" by simp
  qed
  ultimately show ?thesis by blast
qed

lemma nextIds_3:
  assumes "nextId g0 c0 = Some (u1, g1, c1)"
    and "nextId g1 c1 = Some (u2, g2, c2)"
    and "nextId g2 c2 = Some (u3, g3, c3)"
  shows "nextIds 3 g0 c0 = Some ([u1, u2, u3], g3, c3)"
  using assms by (simp add: numeral_3_eq_3)

theorem C1_strictly_increasing_witness:
  "\<exists>vals. map as_uint64 [''20480'', ''20481'', ''4214784''] = map Some vals
      \<and> length vals = 3 \<and> sorted_wrt (<) vals"
proof -
  let ?g = "default_generator\<lparr>machineId := 5\<rparr>"
  let ?clock = "[1704067200000, 1704067200000, 1704067200001 :: int]"
  have inv: "gen_inv ?g"
    by (simp add: gen_inv_def valid_config_def default_generator_def)
  have rng: "machineId_in_range ?g"
    by (simp add: machineId_in_range_def default_generator_def)
  have srt: "sorted ?clock" by simp
  have bnd: "\<forall>t\<in>set ?clock. EPOCH ?g \<le> t \<and> t < EPOCH ?g + 2 ^ 42"
    by (simp add: default_generator_def)
  have run: "nextIds 3 ?g ?clock
      = Some ([''20480'', ''20481'', ''4214784''],
              default_generator\<lparr>machineId := 5, sequence := 0,
                lastTimestamp := BigIntVal 1704067200001\<rparr>, [])"
  proof (rule nextIds_3)
    show "nextId ?g ?clock
        = Some (''20480'',
                default_generator\<lparr>machineId := 5, sequence := 0,
                  lastTimestamp := BigIntVal 1704067200000\<rparr>,
                [1704067200000, 1704067200001])"
      by (simp add: nextId_def default_generator_def compose_def shl_def
          BigInt_toString_def dec_digits.simps digit_char_def)
    show "nextId (default_generator\<lparr>machineId := 5, sequence := 0,
                  lastTimestamp := BigIntVal 1704067200000\<rparr>)
            [1704067200000, 1704067200001]
        = Some (''20481'',
                default_generator\<lparr>machineId := 5, sequence := 1,
                  lastTimestamp := BigIntVal 1704067200000\<rparr>,
                [1704067200001])"
      by (simp add: nextId_def default_generator_def compose_def shl_def
          BigInt_toString_def dec_digits.simps digit_char_def)
    show "nextId (default_generator\<lparr>machineId := 5, sequence := 1,
                  lastTimestamp := BigIntVal 1704067200000\<rparr>)
            [1704067200001]
        = Some (''4214784'',
                default_generator\<lparr>machineId := 5, sequence := 0,
                  lastTimestamp := BigIntVal 1704067200001\<rparr>,
                [])"
      by (simp add: nextId_def default_generator_def compose_def shl_def
          BigInt_toString_def dec_digits.simps digit_char_def)
  qed
  show ?thesis
    by (rule C1_strictly_increasing [OF inv rng srt bnd run])
qed

text \<open>
  Claim C1 as stated fails in two ways. With the machine id 1024 and 10 bits for it, the
  machine id overlaps the timestamp field: three calls at the readings \<open>epoch\<close>,
  \<open>epoch\<close>, \<open>epoch + 1\<close> return \<open>4194304\<close>, \<open>4194305\<close>, \<open>4194304\<close>. With a reading
  \<open>2^42\<close> milliseconds after the epoch the returned string denotes \<open>2^64\<close>, which is no
  unsigned 64-bit integer.
\<close>

theorem C1_machineId_and_clock_counterexample:
  "gen_inv (default_generator\<lparr>machineId := 1024\<rparr>)
   \<and> nextIds 3 (default_generator\<lparr>machineId := 1024\<rparr>)
         [1704067200000, 1704067200000, 1704067200001]
       = Some ([''4194304'', ''4194305'', ''4194304''],
               default_generator\<lparr>machineId := 1024, sequence := 0,
                 lastTimestamp := BigIntVal 1704067200001\<rparr>, [])
   \<and> map as_uint64 [''4194304'', ''4194305'', ''4194304'']
       = [Some 4194304, Some 4194305, Some 4194304]
   \<and> nextIds 1 default_generator [6102113711104]
       = Some ([''18446744073709551616''],
               default_generator\<lparr>sequence := 0, lastTimestamp := BigIntVal 6102113711104\<rparr>, [])
   \<and> as_uint64 ''18446744073709551616'' = None"
proof -
  have "gen_inv (default_generator\<lparr>machineId := 1024\<rparr>)"
    by (simp add: gen_inv_def valid_config_def default_generator_def)
  moreover have "nextIds 3 (default_generator\<lparr>machineId := 1024\<rparr>)
         [1704067200000, 1704067200000, 1704067200001]
       = Some ([''4194304'', ''4194305'', ''4194304''],
               default_generator\<lparr>machineId := 1024, sequence := 0,
                 lastTimestamp := BigIntVal 1704067200001\<rparr>, [])"
  proof (rule nextIds_3)
    show "nextId (default_generator\<lparr>machineId := 1024\<rparr>)
            [1704067200000, 1704067200000, 1704067200001]
        = Some (''4194304'',
                default_generator\<lparr>machineId := 1024, sequence := 0,
                   lastTimestamp := BigIntVal 1704067200000\<rparr>,
                [1704067200000, 1704067200001])"
      by (simp add: nextId_def default_generator_def compose_def shl_def
          BigInt_toString_def dec_digits.simps digit_char_def)
    show "nextId (default_generator\<lparr>machineId := 1024, sequence := 0,
                   lastTimestamp := BigIntVal 1704067200000\<rparr>)
            [1704067200000, 1704067200001]
        = Some (''4194305'',
                default_generator\<lparr>machineId := 1024, sequence := 1,
                   lastTimestamp := BigIntVal 1704067200000\<rparr>,
                [1704067200001])"
      by (simp add: nextId_def default_generator_def compose_def shl_def
          BigInt_toString_def dec_digits.simps digit_char_def)
    show "nextId (default_generator\<lparr>machineId := 1024, sequence := 1,
                   lastTimestamp := BigIntVal 1704067200000\<rparr>)
            [1704067200001]
        = Some (''4194304'',
                default_generator\<lparr>machineId := 1024, sequence := 0,
                   lastTimestamp := BigIntVal 1704067200001\<rparr>,
                [])"
      by (simp add: nextId_def default_generator_def compose_def shl_def
          BigInt_toString_def dec_digits.simps digit_char_def)
  qed
  moreover have "map as_uint64 [''4194304'', ''4194305'', ''4194304'']
       = [Some 4194304, Some 4194305, Some 4194304]"
    by (simp add: as_uint64_def as_unsigned_def is_nonneg_integer_string_def is_digits_def
        is_dec_digit_def radix_value_def digit_val_def)
  moreover have "nextIds 1 default_generator [6102113711104]
       = Some ([''18446744073709551616''],
               default_generator\<lparr>sequence := 0, lastTimestamp := BigIntVal 6102113711104\<rparr>, [])"
    by (simp add: nextId_def default_generator_def compose_def shl_def
        BigInt_toString_def dec_digits.simps digit_char_def)
  moreover have "as_uint64 ''18446744073709551616'' = None"
    by (simp add: as_uint64_def as_unsigned_def is_nonneg_integer_string_def is_digits_def
        is_dec_digit_def radix_value_def digit_val_def)
  ultimately show ?thesis by blast
qed

end
